theory Spec2Isabelle
  imports Main "HOL-Library.Char_ord" "HOL-Library.List_Lexorder" "HOL-Library.Sublist"
begin

text \<open>
  A model of \<open>migrate.py\<close>, the migration runner: the descriptor of a migration file,
  the template renderer, and the runner's \<open>migrate\<close> with the functions it calls. The
  database server is a value that the functions pass along and return: the committed
  state of the target database, the connection with the state its open transaction
  sees, and the list of the statements sent. A Python exception is the \<open>Inl\<close> of a
  result; the state it leaves behind is returned with it.
\<close>

section \<open>Template renderer (MigrationRunner.render_sql_template)\<close>

text \<open>
  The renderer calls
  \<^verbatim>\<open>re.sub(r"\$\{([A-Za-z_][A-Za-z0-9_]*)\}", replace_var, sql_content)\<close>.
  The two character classes of the pattern are \<open>ident_start\<close> and \<open>ident_char\<close>
  (ASCII only: the pattern is a \<open>str\<close> pattern without flags).
\<close>

definition ident_start :: "char \<Rightarrow> bool" where
  "ident_start c =
     (let n = (of_char c :: nat)
      in (65 \<le> n \<and> n \<le> 90) \<or> (97 \<le> n \<and> n \<le> 122) \<or> n = 95)"

definition ident_char :: "char \<Rightarrow> bool" where
  "ident_char c =
     (let n = (of_char c :: nat) in ident_start c \<or> (48 \<le> n \<and> n \<le> 57))"

text \<open>
  \<open>match_var s\<close> is the regular expression matched at the first character of \<open>s\<close>:
  the captured group and the text after the match. The repetition is greedy, and the
  closing brace is not in its class, so a match exists exactly when the longest run of
  is_identifier characters is followed by the brace.
\<close>

fun match_var :: "string \<Rightarrow> (string \<times> string) option" where
  "match_var (c1 # c2 # c3 # cs) =
     (if c1 = CHR ''$'' \<and> c2 = CHR ''{'' \<and> ident_start c3
      then (case dropWhile ident_char cs of
              [] \<Rightarrow> None
            | d # rest \<Rightarrow>
                if d = CHR ''}'' then Some (c3 # takeWhile ident_char cs, rest) else None)
      else None)"
| "match_var _ = None"

lemma match_var_shorter: "match_var s = Some (n, r) \<Longrightarrow> length r < length s"
proof (cases s rule: match_var.cases)
  case (1 c1 c2 c3 cs)
  assume m: "match_var s = Some (n, r)"
  have "length (dropWhile ident_char cs) \<le> length cs" by (rule length_dropWhile_le)
  with m 1 show ?thesis by (auto split: if_splits list.splits)
qed auto

text \<open>
  \<open>re.sub\<close> with a callable: scan from the left; at a match emit the callable's result
  (which is not scanned again) and go on after the match, otherwise copy one character.
\<close>

function re_sub :: "(string \<Rightarrow> string) \<Rightarrow> string \<Rightarrow> string" where
  "re_sub repl [] = []"
| "re_sub repl (c # cs) =
     (case match_var (c # cs) of
        Some (name, rest) \<Rightarrow> repl name @ re_sub repl rest
      | None \<Rightarrow> c # re_sub repl cs)"
  by pat_completeness auto
termination
  by (relation "measure (\<lambda>(repl, s). length s)") (auto dest: match_var_shorter)

text \<open>\<open>match.group(0)\<close> for a match whose group 1 is \<open>name\<close>.\<close>

definition placeholder :: "string \<Rightarrow> string" where
  "placeholder name = ''${'' @ name @ ''}''"

text \<open>
  The inner function \<open>replace_var\<close>. The dictionary \<open>template_vars\<close> is the list of its
  items (the keys of a dictionary are distinct), looked up with \<open>map_of\<close>. Its values
  are strings already (\<open>main\<close> passes \<open>dict(os.environ)\<close>), so \<open>str\<close> is the identity
  on them.
\<close>

definition replace_var :: "(string \<times> string) list \<Rightarrow> string \<Rightarrow> string" where
  "replace_var template_vars var_name =
     (case map_of template_vars var_name of
        Some v \<Rightarrow> v
      | None \<Rightarrow> placeholder var_name)"

definition render_sql_template :: "(string \<times> string) list \<Rightarrow> string \<Rightarrow> string" where
  "render_sql_template template_vars sql_content =
     (if template_vars = [] then sql_content
      else re_sub (replace_var template_vars) sql_content)"

text \<open>The identifiers of the specification: a letter or underscore, then letters,
  digits or underscores.\<close>

definition is_identifier :: "string \<Rightarrow> bool" where
  "is_identifier name =
     (case name of [] \<Rightarrow> False | c # cs \<Rightarrow> ident_start c \<and> (\<forall>d \<in> set cs. ident_char d))"

section \<open>Migration descriptors (class Migration)\<close>

text \<open>
  A directory is the list of its entries, file name and content; the names of a real
  directory are distinct and at most 255 bytes long. File names are byte strings (the
  UTF-8 bytes of the name), and their order is the lexicographic order of the bytes, which
  is how Python compares the last components of two paths of one directory.
\<close>

type_synonym directory = "(string \<times> string) list"

definition valid_directory :: "directory \<Rightarrow> bool" where
  "valid_directory d = (distinct (map fst d) \<and> (\<forall>n \<in> set (map fst d). length n \<le> 255))"

datatype error = ValueError | OSError | UnicodeDecodeError | AttributeError | Psycopg2Error

record migration =
  filename :: string
  description :: string
  filepath :: string
  checksum :: string

definition endswith :: "string \<Rightarrow> string \<Rightarrow> bool" where
  "endswith s suf = (length suf \<le> length s \<and> drop (length s - length suf) s = suf)"

text \<open>\<open>str.rfind\<close> for one character: the last index, or -1.\<close>

definition rfind :: "string \<Rightarrow> char \<Rightarrow> int" where
  "rfind s c =
     (if c \<in> set s then int (length s) - 1 - int (length (takeWhile (\<lambda>d. d \<noteq> c) (rev s)))
      else - 1)"

text \<open>\<open>PurePath.stem\<close>: the name without its last suffix; a name whose only dot is
  the first or the last character has no suffix.\<close>

definition stem :: "string \<Rightarrow> string" where
  "stem name =
     (let i = rfind name (CHR ''.'')
      in if 0 < i \<and> i < int (length name) - 1 then take (nat i) name else name)"

definition replace_char :: "char \<Rightarrow> char \<Rightarrow> string \<Rightarrow> string" where
  "replace_char a b s = map (\<lambda>c. if c = a then b else c) s"

text \<open>
  What the runner takes from outside:
  \<^item> \<open>md5\<close>: \<open>hashlib.md5(...).hexdigest()\<close>;
  \<^item> \<open>decode\<close>: the text that \<open>open(path).read()\<close> makes of the bytes of a file, in the
    encoding of the platform and with the line ends translated (\<open>None\<close>: the bytes are
    not valid in that encoding, and \<open>read\<close> raises \<open>UnicodeDecodeError\<close>); a text is
    held as its UTF-8 bytes, as every string here is;
  \<^item> \<open>run_sql\<close>: the effect of executing a script on the content of the database
    (\<open>None\<close>: a statement of the script raises \<open>psycopg2.Error\<close>);
  \<^item> \<open>partial_effect\<close>: for a script that raises, the content that its transaction is left
    with, which is the work of the statements before the failing one; nothing of it is
    committed, and the rollback of the transaction discards it;
  \<^item> \<open>fresh\<close>: the content of a database that has just been created.

  Scripts are assumed to act on the content only, not on the table of the ledger.
\<close>

record 's env =
  md5 :: "string \<Rightarrow> string"
  decode :: "string \<Rightarrow> string option"
  run_sql :: "string \<Rightarrow> 's \<Rightarrow> 's option"
  partial_effect :: "string \<Rightarrow> 's \<Rightarrow> 's"
  fresh :: 's

definition from_file :: "'s env \<Rightarrow> directory \<Rightarrow> string \<Rightarrow> error + migration" where
  "from_file e dir name =
     (if \<not> endswith name ''.sql'' then Inl ValueError
      else
        let description = replace_char (CHR ''_'') (CHR '' '') (stem name)
        in case map_of dir name of
             None \<Rightarrow> Inl OSError
           | Some bytes \<Rightarrow>
               Inr \<lparr>filename = name, description = description, filepath = name,
                    checksum = md5 e bytes\<rparr>)"

text \<open>
  \<^verbatim>\<open>with open(path) as f: sql_content = f.read()\<close>, on the bytes of the file if there is
  one: the file is opened in text mode.
\<close>

definition read_text :: "'s env \<Rightarrow> string option \<Rightarrow> error + string" where
  "read_text e file =
     (case file of
        None \<Rightarrow> Inl OSError
      | Some bytes \<Rightarrow>
          (case decode e bytes of
             None \<Rightarrow> Inl UnicodeDecodeError
           | Some body \<Rightarrow> Inr body))"

section \<open>The database and the runner's state\<close>

text \<open>
  A row of \<open>schema_migrations\<close>. The rank is the position in the list; the two
  wall-clock columns (\<open>installed_on\<close>, \<open>execution_time\<close>) are left out.
\<close>

record ledger_row =
  script :: string
  row_description :: string
  row_checksum :: string
  installed_by :: string
  success :: bool

text \<open>The target database: the ledger table (\<open>None\<close>: it does not exist) and the rest.\<close>

record 's pg_database =
  ledger :: "ledger_row list option"
  content :: 's

text \<open>
  What the runner does, in order: the statements it sends, with their outcome
  (\<open>True\<close>: no error), and the notices it prints about a drifted checksum, a failed
  migration and a failed callback script. An executed script is logged with the file
  its text was read from.
\<close>

datatype origin = MigrationScript string | CallbackScript string

datatype event =
    CreateDatabase string
  | Connect
  | CreateTable
  | Select bool
  | Execute origin string bool
  | Insert ledger_row bool
  | Commit
  | Rollback
  | Close
  | ChecksumMismatch string
  | MigrationFailed string
  | ScriptFailed string

text \<open>
  The world: the committed state of the target database on the server (\<open>None\<close>: there
  is no such database), \<open>self.conn\<close> (\<open>None\<close>, or the open connection with the state its
  transaction sees), and the statements sent and notices printed so far, in order.
\<close>

record 's world =
  server :: "'s pg_database option"
  conn :: "'s pg_database option"
  trace :: "event list"

record runner =
  database :: string
  user :: string
  migrations_dir :: directory
  after_migrate_dir :: "directory option"
  template_vars :: "(string \<times> string) list"

definition log :: "event \<Rightarrow> 's world \<Rightarrow> 's world" where
  "log ev w = w\<lparr>trace := trace w @ [ev]\<rparr>"

definition new_events :: "'s world \<Rightarrow> 's world \<Rightarrow> event list" where
  "new_events w w' = drop (length (trace w)) (trace w')"

definition bind_result ::
  "(error + 'a) \<times> 'w \<Rightarrow> ('a \<Rightarrow> 'w \<Rightarrow> (error + 'b) \<times> 'w) \<Rightarrow> (error + 'b) \<times> 'w" where
  "bind_result m f = (case m of (Inl err, w) \<Rightarrow> (Inl err, w) | (Inr x, w) \<Rightarrow> f x w)"

subsection \<open>The calls on the connection\<close>

definition commit :: "'s world \<Rightarrow> (error + unit) \<times> 's world" where
  "commit w =
     (case conn w of
        None \<Rightarrow> (Inl AttributeError, w)
      | Some d \<Rightarrow> (Inr (), log Commit (w\<lparr>server := Some d\<rparr>)))"

definition rollback :: "'s world \<Rightarrow> (error + unit) \<times> 's world" where
  "rollback w =
     (case conn w of
        None \<Rightarrow> (Inl AttributeError, w)
      | Some d \<Rightarrow> (Inr (), log Rollback (w\<lparr>conn := server w\<rparr>)))"

definition execute_script ::
  "'s env \<Rightarrow> origin \<Rightarrow> string \<Rightarrow> 's world \<Rightarrow> (error + unit) \<times> 's world" where
  "execute_script e source sql_content w =
     (case conn w of
        None \<Rightarrow> (Inl AttributeError, w)
      | Some d \<Rightarrow>
          (case run_sql e sql_content (content d) of
             None \<Rightarrow>
               (Inl Psycopg2Error,
                log (Execute source sql_content False)
                  (w\<lparr>conn := Some (d\<lparr>content := partial_effect e sql_content (content d)\<rparr>)\<rparr>))
           | Some c \<Rightarrow>
               (Inr (), log (Execute source sql_content True)
                          (w\<lparr>conn := Some (d\<lparr>content := c\<rparr>)\<rparr>))))"

text \<open>
  The columns of the ledger are \<open>VARCHAR(n)\<close>: PostgreSQL rejects a value of more than \<open>n\<close>
  characters unless the excess is spaces only, which it cuts off. \<open>script\<close> is \<open>UNIQUE\<close>.
  The values are held as their UTF-8 bytes, UTF-8 being the encoding of the database: a
  character is a byte with the continuation bytes (\<open>10xxxxxx\<close>) that follow it.
\<close>

definition continuation_byte :: "char \<Rightarrow> bool" where
  "continuation_byte c = (let n = (of_char c :: nat) in 128 \<le> n \<and> n < 192)"

function characters :: "string \<Rightarrow> string list" where
  "characters [] = []"
| "characters (c # cs) =
     (c # takeWhile continuation_byte cs) # characters (dropWhile continuation_byte cs)"
  by pat_completeness auto
termination
  by (relation "measure length") (auto simp: less_Suc_eq_le length_dropWhile_le)

definition fits :: "nat \<Rightarrow> string \<Rightarrow> bool" where
  "fits n s = (\<forall>ch \<in> set (drop n (characters s)). ch = '' '')"

definition truncate_to :: "nat \<Rightarrow> string \<Rightarrow> string" where
  "truncate_to n s = concat (take n (characters s))"

definition storable :: "ledger_row \<Rightarrow> bool" where
  "storable row =
     (fits 1000 (script row) \<and> fits 200 (row_description row)
      \<and> fits 32 (row_checksum row) \<and> fits 100 (installed_by row))"

definition stored :: "ledger_row \<Rightarrow> ledger_row" where
  "stored row =
     \<lparr>script = truncate_to 1000 (script row),
      row_description = truncate_to 200 (row_description row),
      row_checksum = truncate_to 32 (row_checksum row),
      installed_by = truncate_to 100 (installed_by row),
      success = success row\<rparr>"

definition insert_row :: "ledger_row \<Rightarrow> 's world \<Rightarrow> (error + unit) \<times> 's world" where
  "insert_row row w =
     (case conn w of
        None \<Rightarrow> (Inl AttributeError, w)
      | Some d \<Rightarrow>
          (case ledger d of
             None \<Rightarrow> (Inl Psycopg2Error, log (Insert row False) w)
           | Some rows \<Rightarrow>
               if storable row \<and> script (stored row) \<notin> set (map script rows)
               then (Inr (), log (Insert row True)
                              (w\<lparr>conn := Some (d\<lparr>ledger := Some (rows @ [stored row])\<rparr>)\<rparr>))
               else (Inl Psycopg2Error, log (Insert row False) w)))"

section \<open>The runner (class MigrationRunner)\<close>

definition connect :: "'s world \<Rightarrow> (error + unit) \<times> 's world" where
  "connect w =
     (case server w of
        None \<Rightarrow> (Inl Psycopg2Error, w)
      | Some d \<Rightarrow> (Inr (), log Connect (w\<lparr>conn := Some d\<rparr>)))"

definition close :: "'s world \<Rightarrow> 's world" where
  "close w = (case conn w of None \<Rightarrow> w | Some d \<Rightarrow> log Close (w\<lparr>conn := None\<rparr>))"

text \<open>
  \<open>ensure_database_exists\<close> works on a connection of its own to the maintenance
  database, in autocommit mode; that connection and its two statements are taken to
  succeed (the source ends the process when they do not).
\<close>

definition ensure_database_exists ::
  "'s env \<Rightarrow> runner \<Rightarrow> 's world \<Rightarrow> (error + bool) \<times> 's world" where
  "ensure_database_exists e r w =
     (case server w of
        None \<Rightarrow>
          (Inr True, log (CreateDatabase (database r))
                       (w\<lparr>server := Some \<lparr>ledger = None, content = fresh e\<rparr>\<rparr>))
      | Some d \<Rightarrow> (Inr False, w))"

definition initialize_schema_table :: "'s world \<Rightarrow> (error + unit) \<times> 's world" where
  "initialize_schema_table w =
     (case conn w of
        None \<Rightarrow> (Inl AttributeError, w)
      | Some d \<Rightarrow>
          commit (log CreateTable
                   (w\<lparr>conn := Some (case ledger d of
                                      None \<Rightarrow> d\<lparr>ledger := Some []\<rparr>
                                    | Some rows \<Rightarrow> d)\<rparr>)))"

text \<open>The dictionary built from the rows: a later row of the same script wins.\<close>

definition applied_dict :: "ledger_row list \<Rightarrow> (string \<rightharpoonup> ledger_row)" where
  "applied_dict rows = map_of (rev (map (\<lambda>row. (script row, row)) rows))"

definition get_applied_migrations ::
  "'s world \<Rightarrow> (error + (string \<rightharpoonup> ledger_row)) \<times> 's world" where
  "get_applied_migrations w =
     (case conn w of
        None \<Rightarrow> (Inl AttributeError, w)
      | Some d \<Rightarrow>
          (case ledger d of
             None \<Rightarrow> (Inl Psycopg2Error, log (Select False) w)
           | Some rows \<Rightarrow> (Inr (applied_dict rows), log (Select True) w)))"

text \<open>\<open>sorted(self.migrations_dir.glob("*.sql"))\<close>, as file names.\<close>

definition glob_sql :: "directory \<Rightarrow> string list" where
  "glob_sql dir = sort (filter (\<lambda>n. endswith n ''.sql'') (map fst dir))"

fun from_files :: "'s env \<Rightarrow> directory \<Rightarrow> string list \<Rightarrow> error + migration list" where
  "from_files e dir [] = Inr []"
| "from_files e dir (f # fs) =
     (case from_file e dir f of
        Inl err \<Rightarrow> Inl err
      | Inr m \<Rightarrow>
          (case from_files e dir fs of
             Inl err \<Rightarrow> Inl err
           | Inr ms \<Rightarrow> Inr (m # ms)))"

text \<open>The loop of \<open>get_pending_migrations\<close>; the warning is the first line it prints.\<close>

fun filter_pending ::
  "(string \<rightharpoonup> ledger_row) \<Rightarrow> migration list \<Rightarrow> 's world \<Rightarrow> migration list \<times> 's world" where
  "filter_pending applied [] w = ([], w)"
| "filter_pending applied (m # ms) w =
     (case applied (filename m) of
        None \<Rightarrow> (case filter_pending applied ms w of (pending, w') \<Rightarrow> (m # pending, w'))
      | Some row \<Rightarrow>
          if row_checksum row \<noteq> checksum m
          then filter_pending applied ms (log (ChecksumMismatch (filename m)) w)
          else filter_pending applied ms w)"

definition get_pending_migrations ::
  "'s env \<Rightarrow> runner \<Rightarrow> 's world \<Rightarrow> (error + migration list) \<times> 's world" where
  "get_pending_migrations e r w =
     (case from_files e (migrations_dir r) (glob_sql (migrations_dir r)) of
        Inl err \<Rightarrow> (Inl err, w)
      | Inr all_migrations \<Rightarrow>
          bind_result (get_applied_migrations w)
            (\<lambda>applied w1.
               case filter_pending applied all_migrations w1 of
                 (pending, w2) \<Rightarrow> (Inr pending, w2)))"

definition migration_row :: "runner \<Rightarrow> migration \<Rightarrow> bool \<Rightarrow> ledger_row" where
  "migration_row r m ok =
     \<lparr>script = filename m, row_description = description m, row_checksum = checksum m,
      installed_by = user r, success = ok\<rparr>"

text \<open>
  \<open>apply_migration\<close>. The file is read as text and rendered before the \<open>try\<close> block, in a
  dry run too, so an error of the reading propagates. The \<open>try\<close> block is the script, its
  commit, the insertion of the row and its commit; the handler of \<open>psycopg2.Error\<close> is the
  rollback, the insertion of the row of the failure and its commit. An error raised in the
  handler propagates.
\<close>

definition apply_migration ::
  "'s env \<Rightarrow> runner \<Rightarrow> migration \<Rightarrow> bool \<Rightarrow> 's world \<Rightarrow> (error + bool) \<times> 's world" where
  "apply_migration e r m dry_run w =
     (case read_text e (map_of (migrations_dir r) (filepath m)) of
        Inl err \<Rightarrow> (Inl err, w)
      | Inr body \<Rightarrow>
          let sql_content = render_sql_template (template_vars r) body
          in if dry_run then (Inr True, w)
             else if conn w = None then (Inl AttributeError, w)
             else
               (case bind_result
                       (execute_script e (MigrationScript (filename m)) sql_content w) (\<lambda>_ w.
                     bind_result (commit w) (\<lambda>_ w.
                     bind_result (insert_row (migration_row r m True) w) (\<lambda>_ w.
                     bind_result (commit w) (\<lambda>_ w. (Inr True, w))))) of
                  (Inl Psycopg2Error, w1) \<Rightarrow>
                     bind_result (rollback w1) (\<lambda>_ w.
                     bind_result (insert_row (migration_row r m False) w) (\<lambda>_ w.
                     bind_result (commit w) (\<lambda>_ w.
                       (Inr False, log (MigrationFailed (filename m)) w))))
                | other \<Rightarrow> other))"

text \<open>
  One callback script: the body of the loop of \<open>run_after_migrate_scripts\<close>. The file,
  one that the directory listing has just returned, is read as text before the \<open>try\<close>
  block, in a dry run too.
\<close>

definition run_script ::
  "'s env \<Rightarrow> runner \<Rightarrow> bool \<Rightarrow> string \<times> string \<Rightarrow> 's world \<Rightarrow> (error + unit) \<times> 's world" where
  "run_script e r dry_run script_file w =
     (case read_text e (Some (snd script_file)) of
        Inl err \<Rightarrow> (Inl err, w)
      | Inr body \<Rightarrow>
          let sql_content = render_sql_template (template_vars r) body
          in if dry_run then (Inr (), w)
             else if conn w = None then (Inl AttributeError, w)
             else
               (case bind_result
                       (execute_script e (CallbackScript (fst script_file)) sql_content w)
                       (\<lambda>_ w. commit w) of
                  (Inl Psycopg2Error, w1) \<Rightarrow>
                     bind_result (rollback w1) (\<lambda>_ w.
                       (Inr (), log (ScriptFailed (fst script_file)) w))
                | other \<Rightarrow> other))"

fun run_scripts ::
  "'s env \<Rightarrow> runner \<Rightarrow> bool \<Rightarrow> (string \<times> string) list \<Rightarrow> 's world
     \<Rightarrow> (error + unit) \<times> 's world" where
  "run_scripts e r dry_run [] w = (Inr (), w)"
| "run_scripts e r dry_run (f # fs) w =
     bind_result (run_script e r dry_run f w) (\<lambda>_ w'. run_scripts e r dry_run fs w')"

definition run_after_migrate_scripts ::
  "'s env \<Rightarrow> runner \<Rightarrow> bool \<Rightarrow> 's world \<Rightarrow> (error + unit) \<times> 's world" where
  "run_after_migrate_scripts e r dry_run w =
     (case after_migrate_dir r of
        None \<Rightarrow> (Inr (), w)
      | Some dir \<Rightarrow>
          let script_files = sort_key fst (filter (\<lambda>f. endswith (fst f) ''.sql'') dir)
          in if script_files = [] then (Inr (), w)
             else run_scripts e r dry_run script_files w)"

text \<open>
  The loop of \<open>migrate\<close> over the pending migrations, with \<open>applied_count\<close>: it stops
  at the first migration that is not applied (result \<open>False\<close>) and at an exception.
\<close>

fun apply_pending ::
  "'s env \<Rightarrow> runner \<Rightarrow> bool \<Rightarrow> migration list \<Rightarrow> nat \<Rightarrow> 's world
     \<Rightarrow> (error + bool \<times> nat) \<times> 's world" where
  "apply_pending e r dry_run [] applied_count w = (Inr (True, applied_count), w)"
| "apply_pending e r dry_run (m # ms) applied_count w =
     bind_result (apply_migration e r m dry_run w)
       (\<lambda>success w'.
          if \<not> success then (Inr (False, applied_count), w')
          else apply_pending e r dry_run ms (applied_count + 1) w')"

definition migrate :: "'s env \<Rightarrow> runner \<Rightarrow> bool \<Rightarrow> 's world \<Rightarrow> (error + int) \<times> 's world" where
  "migrate e r dry_run w =
     bind_result (ensure_database_exists e r w) (\<lambda>db_created w.
     bind_result (connect w) (\<lambda>_ w.
     bind_result (if \<not> dry_run then initialize_schema_table w else (Inr (), w)) (\<lambda>_ w.
     bind_result (get_pending_migrations e r w) (\<lambda>pending w.
       if pending = [] then
         bind_result (if \<not> db_created then run_after_migrate_scripts e r dry_run w
                      else (Inr (), w))
           (\<lambda>_ w. (Inr 0, close w))
       else
         bind_result (apply_pending e r dry_run pending 0 w) (\<lambda>(all_applied, applied_count) w.
           if \<not> all_applied then (Inr 1, close w)
           else
             bind_result (if applied_count > 0 then run_after_migrate_scripts e r dry_run w
                          else (Inr (), w))
               (\<lambda>_ w. (Inr 0, close w)))))))"

section \<open>Notions used to state and prove the properties\<close>

subsection \<open>Readings of the trace\<close>

text \<open>The migration scripts executed, by file name, with the outcome of each.\<close>

fun executions :: "event list \<Rightarrow> (string \<times> bool) list" where
  "executions [] = []"
| "executions (Execute (MigrationScript n) sql ok # es) = (n, ok) # executions es"
| "executions (ev # es) = executions es"

text \<open>The callback scripts executed, by file name, with the outcome of each.\<close>

fun callbacks :: "event list \<Rightarrow> (string \<times> bool) list" where
  "callbacks [] = []"
| "callbacks (Execute (CallbackScript n) sql ok # es) = (n, ok) # callbacks es"
| "callbacks (ev # es) = callbacks es"

fun is_apply_event :: "event \<Rightarrow> bool" where
  "is_apply_event (Execute (MigrationScript n) sql ok) = True"
| "is_apply_event (Insert row ok) = True"
| "is_apply_event Commit = True"
| "is_apply_event Rollback = True"
| "is_apply_event (MigrationFailed n) = True"
| "is_apply_event ev = False"

fun is_callback_event :: "event \<Rightarrow> bool" where
  "is_callback_event (Execute (CallbackScript n) sql ok) = True"
| "is_callback_event Commit = True"
| "is_callback_event Rollback = True"
| "is_callback_event (ScriptFailed n) = True"
| "is_callback_event ev = False"

subsection \<open>Worlds with an open connection and nothing uncommitted\<close>

definition synced :: "'s world \<Rightarrow> 's pg_database \<Rightarrow> bool" where
  "synced w d = (server w = Some d \<and> conn w = Some d)"

definition settle :: "'s world \<Rightarrow> 's pg_database \<Rightarrow> event list \<Rightarrow> 's world" where
  "settle w d es = \<lparr>server = Some d, conn = Some d, trace = trace w @ es\<rparr>"

definition closed :: "'s world \<Rightarrow> 's pg_database \<Rightarrow> event list \<Rightarrow> 's world" where
  "closed w d es = \<lparr>server = Some d, conn = None, trace = trace w @ es @ [Close]\<rparr>"

definition insertable :: "ledger_row \<Rightarrow> ledger_row list option \<Rightarrow> bool" where
  "insertable row table =
     (case table of
        None \<Rightarrow> False
      | Some rows \<Rightarrow> storable row \<and> script (stored row) \<notin> set (map script rows))"

definition append_row :: "ledger_row \<Rightarrow> 's pg_database \<Rightarrow> 's pg_database" where
  "append_row row d = d\<lparr>ledger := map_option (\<lambda>rows. rows @ [stored row]) (ledger d)\<rparr>"

subsection \<open>The pending migrations\<close>

definition drifted :: "(string \<rightharpoonup> ledger_row) \<Rightarrow> migration \<Rightarrow> bool" where
  "drifted applied m =
     (case applied (filename m) of None \<Rightarrow> False | Some row \<Rightarrow> row_checksum row \<noteq> checksum m)"

definition on_disk :: "runner \<Rightarrow> migration list \<Rightarrow> bool" where
  "on_disk r ms = (\<forall>m \<in> set ms. map_of (migrations_dir r) (filepath m) \<noteq> None)"

definition all_migrations :: "'s env \<Rightarrow> runner \<Rightarrow> migration list" where
  "all_migrations e r =
     (case from_files e (migrations_dir r) (glob_sql (migrations_dir r)) of
        Inl err \<Rightarrow> []
      | Inr ms \<Rightarrow> ms)"

definition pending_of :: "'s env \<Rightarrow> runner \<Rightarrow> ledger_row list \<Rightarrow> migration list" where
  "pending_of e r rows =
     filter (\<lambda>m. filename m \<notin> set (map script rows)) (all_migrations e r)"

definition select_events :: "'s env \<Rightarrow> runner \<Rightarrow> ledger_row list \<Rightarrow> event list" where
  "select_events e r rows =
     Select True # map (\<lambda>m. ChecksumMismatch (filename m))
                     (filter (drifted (applied_dict rows)) (all_migrations e r))"

text \<open>The installation without the file \<open>f\<close> in its directory of migrations.\<close>

definition remove_file :: "string \<Rightarrow> runner \<Rightarrow> runner" where
  "remove_file f r = r\<lparr>migrations_dir := filter (\<lambda>x. fst x \<noteq> f) (migrations_dir r)\<rparr>"

text \<open>
  The pending set as the first testable property of the specification words it: the
  files on disk, less the ledger entries whose checksum matches the file's.
\<close>

definition pending_by_checksum :: "'s env \<Rightarrow> directory \<Rightarrow> ledger_row list \<Rightarrow> string list" where
  "pending_by_checksum e dir rows =
     filter (\<lambda>n. \<not> (\<exists>row \<in> set rows. script row = n
                         \<and> Some (row_checksum row) = map_option (md5 e) (map_of dir n)))
       (glob_sql dir)"

subsection \<open>The loop over the pending migrations, as a relation\<close>

text \<open>The text of the file of a migration, if the file can be read, and the script that
  is made of it.\<close>

definition script_text :: "'s env \<Rightarrow> runner \<Rightarrow> migration \<Rightarrow> string option" where
  "script_text e r m =
     (case map_of (migrations_dir r) (filepath m) of
        None \<Rightarrow> None
      | Some bytes \<Rightarrow> decode e bytes)"

definition script_sql :: "'s env \<Rightarrow> runner \<Rightarrow> migration \<Rightarrow> string" where
  "script_sql e r m =
     (case script_text e r m of
        None \<Rightarrow> []
      | Some body \<Rightarrow> render_sql_template (template_vars r) body)"

definition applied_events :: "'s env \<Rightarrow> runner \<Rightarrow> migration \<Rightarrow> event list" where
  "applied_events e r m =
     [Execute (MigrationScript (filename m)) (script_sql e r m) True, Commit,
      Insert (migration_row r m True) True, Commit]"

definition unrecorded_events :: "'s env \<Rightarrow> runner \<Rightarrow> migration \<Rightarrow> event list" where
  "unrecorded_events e r m =
     [Execute (MigrationScript (filename m)) (script_sql e r m) True, Commit,
      Insert (migration_row r m True) False, Rollback, Insert (migration_row r m False) False]"

definition failed_events :: "'s env \<Rightarrow> runner \<Rightarrow> migration \<Rightarrow> event list" where
  "failed_events e r m =
     [Execute (MigrationScript (filename m)) (script_sql e r m) False, Rollback,
      Insert (migration_row r m False) True, Commit, MigrationFailed (filename m)]"

definition failed_unrecorded_events :: "'s env \<Rightarrow> runner \<Rightarrow> migration \<Rightarrow> event list" where
  "failed_unrecorded_events e r m =
     [Execute (MigrationScript (filename m)) (script_sql e r m) False, Rollback,
      Insert (migration_row r m False) False]"

text \<open>
  \<open>applied_run e r dry ms n d res d' es\<close>: from the database \<open>d\<close> and the count \<open>n\<close>, the
  loop over \<open>ms\<close> ends with the result \<open>res\<close> in the database \<open>d'\<close>, having done \<open>es\<close>.
  One rule for each way \<open>apply_migration\<close> can go: the file cannot be read as text; in a
  dry run, it can; the script and the row succeed; the script succeeds and no row can be
  inserted; the script fails and the failure is recorded; the script fails and no row can
  be inserted.
\<close>

inductive applied_run ::
  "'s env \<Rightarrow> runner \<Rightarrow> bool \<Rightarrow> migration list \<Rightarrow> nat \<Rightarrow> 's pg_database
     \<Rightarrow> (error + bool \<times> nat) \<Rightarrow> 's pg_database \<Rightarrow> event list \<Rightarrow> bool"
  for e :: "'s env" and r :: runner and dry :: bool where
  finished: "applied_run e r dry [] n d (Inr (True, n)) d []"
| unread:
  "script_text e r m = None
   \<Longrightarrow> applied_run e r dry (m # ms) n d (Inl UnicodeDecodeError) d []"
| previewed:
  "dry \<Longrightarrow> script_text e r m \<noteq> None
   \<Longrightarrow> applied_run e r dry ms (n + 1) d res d' es
   \<Longrightarrow> applied_run e r dry (m # ms) n d res d' es"
| applied:
  "\<not> dry \<Longrightarrow> script_text e r m \<noteq> None
   \<Longrightarrow> run_sql e (script_sql e r m) (content d) = Some c
   \<Longrightarrow> insertable (migration_row r m True) (ledger d)
   \<Longrightarrow> applied_run e r dry ms (n + 1) (append_row (migration_row r m True) (d\<lparr>content := c\<rparr>))
         res d' es
   \<Longrightarrow> applied_run e r dry (m # ms) n d res d' (applied_events e r m @ es)"
| unrecorded:
  "\<not> dry \<Longrightarrow> script_text e r m \<noteq> None
   \<Longrightarrow> run_sql e (script_sql e r m) (content d) = Some c
   \<Longrightarrow> \<not> insertable (migration_row r m True) (ledger d)
   \<Longrightarrow> applied_run e r dry (m # ms) n d (Inl Psycopg2Error) (d\<lparr>content := c\<rparr>)
         (unrecorded_events e r m)"
| failed:
  "\<not> dry \<Longrightarrow> script_text e r m \<noteq> None
   \<Longrightarrow> run_sql e (script_sql e r m) (content d) = None
   \<Longrightarrow> insertable (migration_row r m True) (ledger d)
   \<Longrightarrow> applied_run e r dry (m # ms) n d (Inr (False, n))
         (append_row (migration_row r m False) d) (failed_events e r m)"
| failed_unrecorded:
  "\<not> dry \<Longrightarrow> script_text e r m \<noteq> None
   \<Longrightarrow> run_sql e (script_sql e r m) (content d) = None
   \<Longrightarrow> \<not> insertable (migration_row r m True) (ledger d)
   \<Longrightarrow> applied_run e r dry (m # ms) n d (Inl Psycopg2Error) d
         (failed_unrecorded_events e r m)"

subsection \<open>The callback scripts, as a relation\<close>

definition callback_files :: "runner \<Rightarrow> (string \<times> string) list" where
  "callback_files r =
     (case after_migrate_dir r of
        None \<Rightarrow> []
      | Some dir \<Rightarrow> sort_key fst (filter (\<lambda>f. endswith (fst f) ''.sql'') dir))"

definition callback_sql :: "'s env \<Rightarrow> runner \<Rightarrow> string \<times> string \<Rightarrow> string" where
  "callback_sql e r f =
     (case decode e (snd f) of
        None \<Rightarrow> []
      | Some body \<Rightarrow> render_sql_template (template_vars r) body)"

text \<open>
  \<open>callback_run e r dry fs d res d' es\<close>: from the database \<open>d\<close>, the loop over the
  callback scripts \<open>fs\<close> ends with the result \<open>res\<close> in the database \<open>d'\<close>, having done
  \<open>es\<close>. The rules: the file cannot be read as text; in a dry run, it can; the script
  succeeds; the script fails.
\<close>

inductive callback_run ::
  "'s env \<Rightarrow> runner \<Rightarrow> bool \<Rightarrow> (string \<times> string) list \<Rightarrow> 's pg_database
     \<Rightarrow> (error + unit) \<Rightarrow> 's pg_database \<Rightarrow> event list \<Rightarrow> bool"
  for e :: "'s env" and r :: runner and dry :: bool where
  no_more: "callback_run e r dry [] d (Inr ()) d []"
| unread:
  "decode e (snd f) = None
   \<Longrightarrow> callback_run e r dry (f # fs) d (Inl UnicodeDecodeError) d []"
| previewed:
  "dry \<Longrightarrow> decode e (snd f) \<noteq> None
   \<Longrightarrow> callback_run e r dry fs d res d' es
   \<Longrightarrow> callback_run e r dry (f # fs) d res d' es"
| executed:
  "\<not> dry \<Longrightarrow> decode e (snd f) \<noteq> None
   \<Longrightarrow> run_sql e (callback_sql e r f) (content d) = Some c
   \<Longrightarrow> callback_run e r dry fs (d\<lparr>content := c\<rparr>) res d' es
   \<Longrightarrow> callback_run e r dry (f # fs) d res d'
         ([Execute (CallbackScript (fst f)) (callback_sql e r f) True, Commit] @ es)"
| script_failed:
  "\<not> dry \<Longrightarrow> decode e (snd f) \<noteq> None
   \<Longrightarrow> run_sql e (callback_sql e r f) (content d) = None
   \<Longrightarrow> callback_run e r dry fs d res d' es
   \<Longrightarrow> callback_run e r dry (f # fs) d res d'
         ([Execute (CallbackScript (fst f)) (callback_sql e r f) False, Rollback,
           ScriptFailed (fst f)] @ es)"

text \<open>The callback scripts where \<open>migrate\<close> may call them: it does not when it has just
  created the database and found nothing pending.\<close>

definition callback_phase ::
  "'s env \<Rightarrow> runner \<Rightarrow> bool \<Rightarrow> bool \<Rightarrow> 's pg_database \<Rightarrow> (error + unit) \<Rightarrow> 's pg_database
     \<Rightarrow> event list \<Rightarrow> bool" where
  "callback_phase e r called dry d res d' es =
     (if called then callback_run e r dry (callback_files r) d res d' es
      else res = Inr () \<and> d' = d \<and> es = [])"

text \<open>
  The content of the database after the callback scripts \<open>fs\<close>, run from the content
  \<open>c\<close>: a script that the database accepts has had its effect, and one that it rejects
  has had none.
\<close>

fun callback_content :: "'s env \<Rightarrow> runner \<Rightarrow> (string \<times> string) list \<Rightarrow> 's \<Rightarrow> 's" where
  "callback_content e r [] c = c"
| "callback_content e r (f # fs) c =
     callback_content e r fs
       (case run_sql e (callback_sql e r f) c of None \<Rightarrow> c | Some c' \<Rightarrow> c')"

subsection \<open>The parts of migrate\<close>

text \<open>The database and the trace once \<open>migrate\<close> has ensured the database, connected
  and (unless in dry-run mode) initialized the ledger.\<close>

definition prepared_db :: "'s env \<Rightarrow> bool \<Rightarrow> 's world \<Rightarrow> 's pg_database" where
  "prepared_db e dry w =
     (let d0 = (case server w of None \<Rightarrow> \<lparr>ledger = None, content = fresh e\<rparr> | Some d \<Rightarrow> d)
      in if dry then d0
         else (case ledger d0 of None \<Rightarrow> d0\<lparr>ledger := Some []\<rparr> | Some rows \<Rightarrow> d0))"

definition prepared_events :: "runner \<Rightarrow> bool \<Rightarrow> 's world \<Rightarrow> event list" where
  "prepared_events r dry w =
     (if server w = None then [CreateDatabase (database r)] else [])
     @ Connect # (if dry then [] else [CreateTable, Commit])"

text \<open>The body of \<open>migrate\<close> from the point where the pending migrations are known.\<close>

definition conclude ::
  "'s env \<Rightarrow> runner \<Rightarrow> bool \<Rightarrow> bool \<Rightarrow> migration list \<Rightarrow> 's world \<Rightarrow> (error + int) \<times> 's world" where
  "conclude e r dry_run db_created pending w =
     (if pending = [] then
        bind_result (if \<not> db_created then run_after_migrate_scripts e r dry_run w
                     else (Inr (), w))
          (\<lambda>_ w. (Inr 0, close w))
      else
        bind_result (apply_pending e r dry_run pending 0 w) (\<lambda>(all_applied, applied_count) w.
          if \<not> all_applied then (Inr 1, close w)
          else
            bind_result (if applied_count > 0 then run_after_migrate_scripts e r dry_run w
                         else (Inr (), w))
              (\<lambda>_ w. (Inr 0, close w))))"

text \<open>
  What \<open>migrate\<close> returns and leaves, from the outcome \<open>resL\<close> of the loop over the
  pending migrations and the outcome \<open>resC\<close> of the callback scripts: an exception
  propagates and leaves the connection open, a migration that is not applied makes the
  run return 1, and otherwise it returns 0.
\<close>

definition outcome ::
  "'s world \<Rightarrow> event list \<Rightarrow> (error + bool \<times> nat) \<Rightarrow> 's pg_database \<Rightarrow> event list
     \<Rightarrow> (error + unit) \<Rightarrow> 's pg_database \<Rightarrow> event list \<Rightarrow> (error + int) \<times> 's world" where
  "outcome w es0 resL d2 es resC d' cb =
     (case resL of
        Inl err \<Rightarrow> (Inl err, settle w d2 (es0 @ es))
      | Inr (all_applied, applied_count) \<Rightarrow>
          if \<not> all_applied then (Inr 1, closed w d2 (es0 @ es))
          else
            (case resC of
               Inl err \<Rightarrow> (Inl err, settle w d' (es0 @ es @ cb))
             | Inr u \<Rightarrow> (Inr 0, closed w d' (es0 @ es @ cb))))"

section \<open>An example installation\<close>

text \<open>
  A database whose content is the list of the scripts executed on it, and on which the
  statement \<open>SELEC 1\<close> fails, leaving a mark in its transaction. The digest function is
  a table of the MD5 digests of the example files (any other content gets the digest of
  the empty file). Files are read as ASCII, with \<open>\r\n\<close> and \<open>\r\<close> made \<open>\n\<close>. Three
  migrations, the second of which fails, a file that is no migration, and two callback
  scripts, the first of which (in order) fails.
\<close>

definition example_md5 :: "string \<Rightarrow> string" where
  "example_md5 bytes =
     (if bytes = ''CREATE TABLE a (x int)'' then ''b3311a9c805c7f6529c475224d14ba66''
      else if bytes = ''CREATE TABLE a (x bigint)'' then ''07b6f648de698c542b7a790e5238c488''
      else if bytes = ''CREATE TABLE b (x int)'' then ''f77fea887952d77b5e9645c419c4071d''
      else if bytes = ''CREATE TABLE c (x int)'' then ''fd5b99fac11f6c73f36be9af4a13a7fc''
      else if bytes = ''SELEC 1'' then ''d9500d3e98698f607b7b9703f043f2c0''
      else ''d41d8cd98f00b204e9800998ecf8427e'')"

fun universal_newlines :: "string \<Rightarrow> string" where
  "universal_newlines [] = []"
| "universal_newlines [c] = [if c = CHR 0x0D then CHR 0x0A else c]"
| "universal_newlines (c1 # c2 # cs) =
     (if c1 = CHR 0x0D \<and> c2 = CHR 0x0A then CHR 0x0A # universal_newlines cs
      else if c1 = CHR 0x0D then CHR 0x0A # universal_newlines (c2 # cs)
      else c1 # universal_newlines (c2 # cs))"

definition example_decode :: "string \<Rightarrow> string option" where
  "example_decode bytes =
     (if list_all (\<lambda>c. (of_char c :: nat) < 128) bytes then Some (universal_newlines bytes)
      else None)"

definition example_run :: "string \<Rightarrow> string list \<Rightarrow> string list option" where
  "example_run sql c = (if sql = ''SELEC 1'' then None else Some (c @ [sql]))"

definition example_partial :: "string \<Rightarrow> string list \<Rightarrow> string list" where
  "example_partial sql c = c @ [''uncommitted'']"

definition example_env :: "string list env" where
  "example_env =
     \<lparr>md5 = example_md5, decode = example_decode, run_sql = example_run,
      partial_effect = example_partial, fresh = []\<rparr>"

definition example_runner :: runner where
  "example_runner =
     \<lparr>database = ''app'', user = ''deploy'',
      migrations_dir = [(''v3_c.sql'', ''CREATE TABLE c (x int)''),
                        (''v1_a.sql'', ''CREATE TABLE a (x int)''),
                        (''v2_b.sql'', ''SELEC 1''),
                        (''notes.txt'', ''about'')],
      after_migrate_dir = Some [(''grants.sql'', ''GRANT SELECT ON a TO ${READER}''),
                                (''broken.sql'', ''SELEC 1'')],
      template_vars = [(''READER'', ''reporting'')]\<rparr>"

text \<open>The same with the second migration repaired, and then with the first one edited.\<close>

definition repaired_runner :: runner where
  "repaired_runner =
     example_runner\<lparr>migrations_dir :=
       [(''v3_c.sql'', ''CREATE TABLE c (x int)''),
        (''v1_a.sql'', ''CREATE TABLE a (x int)''),
        (''v2_b.sql'', ''CREATE TABLE b (x int)'')]\<rparr>"

definition edited_runner :: runner where
  "edited_runner =
     example_runner\<lparr>migrations_dir :=
       [(''v3_c.sql'', ''CREATE TABLE c (x int)''),
        (''v1_a.sql'', ''CREATE TABLE a (x bigint)''),
        (''v2_b.sql'', ''CREATE TABLE b (x int)'')]\<rparr>"

text \<open>The same with a second callback script that was saved as UTF-16, and so cannot be
  read as ASCII (nor as UTF-8).\<close>

definition utf16_callback_runner :: runner where
  "utf16_callback_runner =
     example_runner\<lparr>after_migrate_dir :=
       Some [(''views.sql'', [CHR 0xFF, CHR 0xFE, CHR 0x53, CHR 0x00]),
             (''broken.sql'', ''SELEC 1'')]\<rparr>"

text \<open>One migration whose file name has 205 characters (a file name may have 255).\<close>

definition long_name :: string where
  "long_name = replicate 201 (CHR ''a'') @ ''.sql''"

definition long_name_runner :: runner where
  "long_name_runner =
     \<lparr>database = ''app'', user = ''deploy'',
      migrations_dir = [(long_name, ''CREATE TABLE a (x int)'')],
      after_migrate_dir = None, template_vars = []\<rparr>"

definition long_name_row :: "bool \<Rightarrow> ledger_row" where
  "long_name_row ok =
     \<lparr>script = long_name, row_description = replicate 201 (CHR ''a''),
      row_checksum = ''b3311a9c805c7f6529c475224d14ba66'', installed_by = ''deploy'',
      success = ok\<rparr>"

definition row_a :: ledger_row where
  "row_a = \<lparr>script = ''v1_a.sql'', row_description = ''v1 a'',
            row_checksum = ''b3311a9c805c7f6529c475224d14ba66'', installed_by = ''deploy'',
            success = True\<rparr>"

definition row_b :: "bool \<Rightarrow> ledger_row" where
  "row_b ok = \<lparr>script = ''v2_b.sql'', row_description = ''v2 b'',
               row_checksum = (if ok then ''f77fea887952d77b5e9645c419c4071d''
                               else ''d9500d3e98698f607b7b9703f043f2c0''),
               installed_by = ''deploy'', success = ok\<rparr>"

definition row_c :: ledger_row where
  "row_c = \<lparr>script = ''v3_c.sql'', row_description = ''v3 c'',
            row_checksum = ''fd5b99fac11f6c73f36be9af4a13a7fc'', installed_by = ''deploy'',
            success = True\<rparr>"

definition migration_c :: migration where
  "migration_c = \<lparr>filename = ''v3_c.sql'', description = ''v3 c'', filepath = ''v3_c.sql'',
                  checksum = ''fd5b99fac11f6c73f36be9af4a13a7fc''\<rparr>"

text \<open>The states: no database yet; a database just created, with no ledger table; the
  database after the first run, in which the first migration is recorded and the second
  as failed, and the same with a connection; the database in which the three migrations
  are recorded.\<close>

definition no_database :: "string list world" where
  "no_database = \<lparr>server = None, conn = None, trace = []\<rparr>"

definition fresh_database :: "string list world" where
  "fresh_database = \<lparr>server = Some \<lparr>ledger = None, content = []\<rparr>, conn = None, trace = []\<rparr>"

definition halted_db :: "string list pg_database" where
  "halted_db = \<lparr>ledger = Some [row_a, row_b False], content = [''CREATE TABLE a (x int)'']\<rparr>"

definition first_run_trace :: "event list" where
  "first_run_trace =
     [CreateDatabase ''app'', Connect, CreateTable, Commit, Select True,
      Execute (MigrationScript ''v1_a.sql'') ''CREATE TABLE a (x int)'' True, Commit,
      Insert row_a True, Commit,
      Execute (MigrationScript ''v2_b.sql'') ''SELEC 1'' False, Rollback,
      Insert (row_b False) True, Commit, MigrationFailed ''v2_b.sql'', Close]"

definition after_first_run :: "string list world" where
  "after_first_run = \<lparr>server = Some halted_db, conn = None, trace = first_run_trace\<rparr>"

definition reconnected :: "string list world" where
  "reconnected = \<lparr>server = Some halted_db, conn = Some halted_db, trace = []\<rparr>"

definition complete_db :: "string list pg_database" where
  "complete_db =
     \<lparr>ledger = Some [row_a, row_b True, row_c],
      content = [''CREATE TABLE a (x int)'', ''CREATE TABLE b (x int)'',
                 ''CREATE TABLE c (x int)'']\<rparr>"

definition complete_database :: "string list world" where
  "complete_database = \<lparr>server = Some complete_db, conn = None, trace = []\<rparr>"

definition complete_connected :: "string list world" where
  "complete_connected = \<lparr>server = Some complete_db, conn = Some complete_db, trace = []\<rparr>"

section \<open>Properties of the renderer\<close>

lemma not_ident_brace: "\<not> ident_char (CHR ''}'')"
  by (simp add: ident_char_def ident_start_def)

lemma not_ident_dollar: "\<not> ident_char (CHR ''$'')" "\<not> ident_start (CHR ''$'')"
  by (simp_all add: ident_char_def ident_start_def)

lemma match_var_SomeD:
  assumes "match_var s = Some (n, r)"
  shows "s = placeholder n @ r \<and> is_identifier n"
proof (cases s rule: match_var.cases)
  case (1 c1 c2 c3 cs)
  with assms have h: "c1 = CHR ''$''" "c2 = CHR ''{''" "ident_start c3"
    by (auto split: if_splits)
  with assms 1 obtain rest where
    d: "dropWhile ident_char cs = CHR ''}'' # rest"
    and n: "n = c3 # takeWhile ident_char cs" and r: "r = rest"
    by (auto split: list.splits if_splits)
  have "cs = takeWhile ident_char cs @ dropWhile ident_char cs" by simp
  with d have cs: "cs = takeWhile ident_char cs @ CHR ''}'' # rest" by simp
  have "\<forall>d \<in> set (takeWhile ident_char cs). ident_char d"
    by (auto dest: set_takeWhileD)
  with h n have "is_identifier n" by (simp add: is_identifier_def)
  moreover have "s = placeholder n @ r"
    using 1 h n r cs by (simp add: placeholder_def)
  ultimately show ?thesis by simp
qed (use assms in auto)

lemma match_var_placeholder:
  assumes "is_identifier n"
  shows "match_var (placeholder n @ post) = Some (n, post)"
proof -
  from assms obtain c cs where n: "n = c # cs" and c: "ident_start c"
    and cs: "\<forall>d \<in> set cs. ident_char d"
    by (auto simp: is_identifier_def split: list.splits)
  have d: "dropWhile ident_char (cs @ CHR ''}'' # post) = CHR ''}'' # post"
    using cs by (simp add: dropWhile_append not_ident_brace)
  have t: "takeWhile ident_char (cs @ CHR ''}'' # post) = cs"
    using cs by (simp add: takeWhile_append not_ident_brace)
  show ?thesis using n c d t by (simp add: placeholder_def)
qed

lemma match_var_append_Some:
  "match_var s = Some (n, r) \<Longrightarrow> match_var (s @ t) = Some (n, r @ t)"
  using match_var_SomeD [of s n r] match_var_placeholder [of n "r @ t"] by simp

lemma match_var_append_None:
  assumes "match_var s = None" and "s \<noteq> []"
  shows "match_var (s @ CHR ''$'' # t) = None"
proof -
  consider (one) c1 where "s = [c1]"
    | (two) c1 c2 where "s = [c1, c2]"
    | (more) c1 c2 c3 cs where "s = c1 # c2 # c3 # cs"
    using assms(2) by (cases s rule: match_var.cases) auto
  then show ?thesis
  proof cases
    case one
    then show ?thesis by (cases t) (simp_all add: not_ident_dollar)
  next
    case two
    then show ?thesis by (simp add: not_ident_dollar)
  next
    case more
    show ?thesis
    proof (cases "c1 = CHR ''$'' \<and> c2 = CHR ''{'' \<and> ident_start c3")
      case True
      show ?thesis
      proof (cases "\<forall>d \<in> set cs. ident_char d")
        case all: True
        then have "dropWhile ident_char (cs @ CHR ''$'' # t) = CHR ''$'' # t"
          by (simp add: dropWhile_append not_ident_dollar)
        with more True show ?thesis by simp
      next
        case False
        then have "dropWhile ident_char (cs @ CHR ''$'' # t)
                   = dropWhile ident_char cs @ CHR ''$'' # t"
          by (auto simp: dropWhile_append)
        with assms more True False show ?thesis
          by (auto split: list.splits if_splits)
      qed
    next
      case False
      with more show ?thesis by auto
    qed
  qed
qed

lemma re_sub_placeholder:
  assumes "is_identifier n"
  shows "re_sub f (pre @ placeholder n @ post) = re_sub f pre @ f n @ re_sub f post"
proof (induction f pre rule: re_sub.induct)
  case (1 repl)
  have "placeholder n @ post = CHR ''$'' # tl (placeholder n @ post)"
    by (simp add: placeholder_def)
  then have "re_sub repl (placeholder n @ post)
             = (case match_var (placeholder n @ post) of
                  Some (name, rest) \<Rightarrow> repl name @ re_sub repl rest
                | None \<Rightarrow> CHR ''$'' # re_sub repl (tl (placeholder n @ post)))"
    by (metis re_sub.simps(2))
  then show ?case using match_var_placeholder [OF assms, of post] by simp
next
  case (2 repl c cs)
  have ph: "placeholder n @ post = CHR ''$'' # tl (placeholder n @ post)"
    by (simp add: placeholder_def)
  show ?case
  proof (cases "match_var (c # cs)")
    case None
    then have "match_var ((c # cs) @ placeholder n @ post) = None"
      using match_var_append_None [of "c # cs" "tl (placeholder n @ post)"] ph by simp
    with None "2.IH" show ?thesis by simp
  next
    case (Some a)
    then obtain m rest where a: "a = (m, rest)" by (cases a)
    with Some have "match_var (c # cs @ placeholder n @ post)
                    = Some (m, rest @ placeholder n @ post)"
      using match_var_append_Some [of "c # cs" m rest "placeholder n @ post"] by simp
    with Some a "2.IH" show ?thesis by simp
  qed
qed

lemma re_sub_unchanged:
  assumes "\<forall>n. is_identifier n \<and> sublist (placeholder n) s \<longrightarrow> f n = placeholder n"
  shows "re_sub f s = s"
  using assms
proof (induction f s rule: re_sub.induct)
  case (1 repl)
  show ?case by simp
next
  case (2 repl c cs)
  show ?case
  proof (cases "match_var (c # cs)")
    case None
    have "\<forall>n. is_identifier n \<and> sublist (placeholder n) cs \<longrightarrow> repl n = placeholder n"
      using "2.prems" by (auto simp: sublist_Cons_right)
    with None "2.IH" show ?thesis by simp
  next
    case (Some a)
    then obtain m rest where a: "a = (m, rest)" by (cases a)
    with Some have s: "c # cs = placeholder m @ rest" and m: "is_identifier m"
      using match_var_SomeD by auto
    have "sublist (placeholder m) (c # cs)" unfolding s by simp
    with m "2.prems" have fm: "repl m = placeholder m" by blast
    have "\<forall>n. is_identifier n \<and> sublist (placeholder n) rest \<longrightarrow> repl n = placeholder n"
      using "2.prems" unfolding s by (auto simp: sublist_append)
    with "2.IH" Some a have r2: "re_sub repl rest = rest" by simp
    have r1: "re_sub repl (c # cs) = repl m @ re_sub repl rest"
      using Some a by simp
    show ?thesis unfolding r1 r2 fm using s by simp
  qed
qed

text \<open>
  Claim C7. In any text, an occurrence of \<open>${name}\<close> with \<open>name\<close> an identifier is
  replaced by the mapped value when \<open>name\<close> is a key of the mapping, and kept as it is
  when it is not; the text before and the text after are rendered on their own. A text
  in which no mapped identifier occurs as a placeholder is returned unchanged, whatever
  other \<open>${...}\<close> text it holds (unmapped names, or names that are no identifiers, such as
  \<open>${1bad}\<close>, even when the mapping has that key). The renderer is a total function to
  strings: it has no error result.
\<close>

theorem render_sql_template_substitutes:
  "(is_identifier name \<longrightarrow>
      render_sql_template vars (pre @ placeholder name @ post)
      = render_sql_template vars pre
        @ (case map_of vars name of Some v \<Rightarrow> v | None \<Rightarrow> placeholder name)
        @ render_sql_template vars post)
   \<and> ((\<forall>n. is_identifier n \<and> n \<in> dom (map_of vars) \<longrightarrow> \<not> sublist (placeholder n) s)
        \<longrightarrow> render_sql_template vars s = s)"
proof (intro conjI impI)
  assume "is_identifier name"
  then show "render_sql_template vars (pre @ placeholder name @ post)
      = render_sql_template vars pre
        @ (case map_of vars name of Some v \<Rightarrow> v | None \<Rightarrow> placeholder name)
        @ render_sql_template vars post"
    by (simp add: render_sql_template_def re_sub_placeholder replace_var_def)
next
  assume h: "\<forall>n. is_identifier n \<and> n \<in> dom (map_of vars) \<longrightarrow> \<not> sublist (placeholder n) s"
  have "\<forall>n. is_identifier n \<and> sublist (placeholder n) s
            \<longrightarrow> replace_var vars n = placeholder n"
    using h by (auto simp: replace_var_def split: option.splits)
  then show "render_sql_template vars s = s"
    by (simp add: render_sql_template_def re_sub_unchanged)
qed

theorem render_sql_template_substitutes_witness:
  "render_sql_template [(''X'', ''5'')] (''SELECT '' @ CHR 0x27 # placeholder ''X'' @ [CHR 0x27])
     = ''SELECT '' @ CHR 0x27 # ''5'' @ [CHR 0x27]
   \<and> render_sql_template [(''Y'', ''7'')] (''SELECT '' @ CHR 0x27 # ''${X}'' @ [CHR 0x27])
     = ''SELECT '' @ CHR 0x27 # ''${X}'' @ [CHR 0x27]
   \<and> render_sql_template [(''1bad'', ''5'')] ''${1bad}'' = ''${1bad}''"
proof -
  have i: "is_identifier ''X''"
    by (simp add: is_identifier_def ident_start_def)
  have a: "render_sql_template [(''X'', ''5'')] (''SELECT '' @ [CHR 0x27])
           = ''SELECT '' @ [CHR 0x27]"
    by (simp add: render_sql_template_def)
  have b: "render_sql_template [(''X'', ''5'')] [CHR 0x27] = [CHR 0x27]"
    by (simp add: render_sql_template_def)
  have y: "\<forall>n. is_identifier n \<and> n \<in> dom (map_of [(''Y'', ''7'')])
               \<longrightarrow> \<not> sublist (placeholder n) (''SELECT '' @ CHR 0x27 # ''${X}'' @ [CHR 0x27])"
    by (auto simp: placeholder_def sublist_Cons_right prefix_Cons)
  have n: "\<forall>n. is_identifier n \<and> n \<in> dom (map_of [(''1bad'', ''5'')])
               \<longrightarrow> \<not> sublist (placeholder n) ''${1bad}''"
    by (auto simp: is_identifier_def ident_start_def)
  from render_sql_template_substitutes
         [of "''X''" "[(''X'', ''5'')]" "''SELECT '' @ [CHR 0x27]" "[CHR 0x27]"]
       render_sql_template_substitutes
         [of _ "[(''Y'', ''7'')]" _ _ "''SELECT '' @ CHR 0x27 # ''${X}'' @ [CHR 0x27]"]
       render_sql_template_substitutes [of _ "[(''1bad'', ''5'')]" _ _ "''${1bad}''"]
  show ?thesis using i a b y n by simp
qed

section \<open>Discovery and the pending list\<close>

lemma log_simps [simp]:
  "trace (log ev w) = trace w @ [ev]" "conn (log ev w) = conn w" "server (log ev w) = server w"
  by (simp_all add: log_def)

lemma new_events_append [simp]: "trace w' = trace w @ es \<Longrightarrow> new_events w w' = es"
  by (simp add: new_events_def)

lemma from_file_Inr:
  assumes "endswith n ''.sql''" and "map_of dir n = Some body"
  shows "\<exists>m. from_file e dir n = Inr m \<and> filename m = n \<and> filepath m = n
             \<and> checksum m = md5 e body"
  using assms by (simp add: from_file_def Let_def)

lemma from_files_Inr:
  assumes "\<forall>n \<in> set ns. endswith n ''.sql'' \<and> n \<in> set (map fst dir)"
  shows "\<exists>ms. from_files e dir ns = Inr ms \<and> map filename ms = ns
              \<and> (\<forall>m \<in> set ms. filepath m = filename m
                     \<and> map_of dir (filename m) \<noteq> None
                     \<and> Some (checksum m) = map_option (md5 e) (map_of dir (filename m)))"
  using assms
proof (induction ns)
  case Nil
  show ?case by simp
next
  case (Cons n ns)
  then obtain ms where ms: "from_files e dir ns = Inr ms" "map filename ms = ns"
    "\<forall>m \<in> set ms. filepath m = filename m \<and> map_of dir (filename m) \<noteq> None
         \<and> Some (checksum m) = map_option (md5 e) (map_of dir (filename m))"
    by auto
  from Cons.prems have "n \<in> set (map fst dir)" and sql: "endswith n ''.sql''" by auto
  then obtain body where t: "map_of dir n = Some body"
    by (metis map_of_eq_None_iff not_Some_eq set_map)
  from from_file_Inr [OF sql t, of e] obtain m where
    m: "from_file e dir n = Inr m" "filename m = n" "filepath m = n" "checksum m = md5 e body"
    by blast
  show ?case using ms m t by simp
qed

lemma set_glob_sql: "set (glob_sql dir) = {n \<in> set (map fst dir). endswith n ''.sql''}"
  by (auto simp: glob_sql_def)

lemma sorted_glob_sql: "sorted (glob_sql dir)"
  by (simp add: glob_sql_def)

lemma distinct_glob_sql: "distinct (map fst dir) \<Longrightarrow> distinct (glob_sql dir)"
  by (simp add: glob_sql_def)

lemma applied_dict_None: "applied_dict rows n = None \<longleftrightarrow> n \<notin> set (map script rows)"
  by (force simp: applied_dict_def map_of_eq_None_iff)

lemma applied_dict_Some:
  "applied_dict rows n = Some row \<Longrightarrow> row \<in> set rows \<and> script row = n"
  by (auto simp: applied_dict_def dest!: map_of_SomeD)

lemma filter_pending_eq:
  "filter_pending applied ms w =
     (filter (\<lambda>m. applied (filename m) = None) ms,
      w\<lparr>trace := trace w @ map (\<lambda>m. ChecksumMismatch (filename m)) (filter (drifted applied) ms)\<rparr>)"
proof (induction ms arbitrary: w)
  case Nil
  show ?case by simp
next
  case (Cons m ms)
  show ?case
    by (cases "applied (filename m)") (simp_all add: Cons.IH drifted_def log_def)
qed

lemma get_pending_migrations_eq:
  assumes "conn w = Some d" and "ledger d = Some rows"
    and "from_files e (migrations_dir r) (glob_sql (migrations_dir r)) = Inr ms"
  shows "get_pending_migrations e r w =
           (Inr (filter (\<lambda>m. filename m \<notin> set (map script rows)) ms),
            w\<lparr>trace := trace w @ Select True
                 # map (\<lambda>m. ChecksumMismatch (filename m))
                     (filter (drifted (applied_dict rows)) ms)\<rparr>)"
  using assms
  by (simp add: get_pending_migrations_def get_applied_migrations_def bind_result_def
      filter_pending_eq applied_dict_None log_def)

lemma all_migrations_Inr:
  "\<exists>ms. from_files e dir (glob_sql dir) = Inr ms \<and> map filename ms = glob_sql dir
        \<and> (\<forall>m \<in> set ms. filepath m = filename m
               \<and> map_of dir (filename m) \<noteq> None
               \<and> Some (checksum m) = map_option (md5 e) (map_of dir (filename m)))"
  by (rule from_files_Inr) (simp add: set_glob_sql)

section \<open>One migration, one callback script\<close>

lemma settle_simps [simp]:
  "server (settle w d es) = Some d" "conn (settle w d es) = Some d"
  "trace (settle w d es) = trace w @ es"
  "settle (settle w d es) d' es' = settle w d' (es @ es')"
  by (simp_all add: settle_def)

lemma synced_settle [simp]: "synced (settle w d es) d' \<longleftrightarrow> d' = d"
  by (auto simp: synced_def)

lemma synced_eq_settle: "synced w d \<Longrightarrow> w = settle w d []"
  by (simp add: synced_def settle_def)

lemma executions_append [simp]: "executions (xs @ ys) = executions xs @ executions ys"
  by (induction xs rule: executions.induct) simp_all

lemma callbacks_append [simp]: "callbacks (xs @ ys) = callbacks xs @ callbacks ys"
  by (induction xs rule: callbacks.induct) simp_all

lemma script_text_read:
  "map_of (migrations_dir r) (filepath m) \<noteq> None \<Longrightarrow>
     read_text e (map_of (migrations_dir r) (filepath m))
     = (case script_text e r m of None \<Rightarrow> Inl UnicodeDecodeError | Some body \<Rightarrow> Inr body)"
  by (auto simp: read_text_def script_text_def split: option.splits)

lemma apply_migration_unread:
  assumes "map_of (migrations_dir r) (filepath m) \<noteq> None" and "script_text e r m = None"
  shows "apply_migration e r m dry w = (Inl UnicodeDecodeError, w)"
  using assms by (simp add: apply_migration_def script_text_read)

lemma apply_migration_dry_run:
  assumes "script_text e r m \<noteq> None"
  shows "apply_migration e r m True w = (Inr True, w)"
proof -
  from assms have "map_of (migrations_dir r) (filepath m) \<noteq> None"
    by (auto simp: script_text_def split: option.splits)
  with assms show ?thesis by (auto simp: apply_migration_def script_text_read Let_def)
qed

lemma apply_migration_synced:
  assumes "synced w d" and "script_text e r m = Some body"
  shows "apply_migration e r m False w =
     (let sql = render_sql_template (template_vars r) body;
          src = MigrationScript (filename m);
          ok_row = migration_row r m True;
          failed_row = migration_row r m False
      in case run_sql e sql (content d) of
           Some c \<Rightarrow>
             if insertable ok_row (ledger d)
             then (Inr True, settle w (append_row ok_row (d\<lparr>content := c\<rparr>))
                     [Execute src sql True, Commit, Insert ok_row True, Commit])
             else (Inl Psycopg2Error, settle w (d\<lparr>content := c\<rparr>)
                     [Execute src sql True, Commit, Insert ok_row False, Rollback,
                      Insert failed_row False])
         | None \<Rightarrow>
             if insertable ok_row (ledger d)
             then (Inr False, settle w (append_row failed_row d)
                     [Execute src sql False, Rollback, Insert failed_row True, Commit,
                      MigrationFailed (filename m)])
             else (Inl Psycopg2Error, settle w d
                     [Execute src sql False, Rollback, Insert failed_row False]))"
proof -
  have i: "storable (migration_row r m False) = storable (migration_row r m True)"
    "script (stored (migration_row r m False)) = script (stored (migration_row r m True))"
    by (simp_all add: migration_row_def storable_def stored_def)
  from assms(2) have rd: "read_text e (map_of (migrations_dir r) (filepath m)) = Inr body"
    by (auto simp: read_text_def script_text_def split: option.splits)
  show ?thesis
    using assms(1)
    by (auto simp: apply_migration_def rd synced_def bind_result_def execute_script_def
        commit_def rollback_def insert_row_def insertable_def log_def Let_def settle_def
        append_row_def i
        split: option.splits)
qed

lemma run_script_unread:
  "decode e (snd f) = None \<Longrightarrow> run_script e r dry f w = (Inl UnicodeDecodeError, w)"
  by (simp add: run_script_def read_text_def)

lemma run_script_dry_run:
  "decode e (snd f) \<noteq> None \<Longrightarrow> run_script e r True f w = (Inr (), w)"
  by (auto simp: run_script_def read_text_def Let_def)

lemma run_script_synced:
  assumes "synced w d" and "decode e (snd f) \<noteq> None"
  shows "run_script e r False f w =
     (case run_sql e (callback_sql e r f) (content d) of
        Some c \<Rightarrow>
          (Inr (), settle w (d\<lparr>content := c\<rparr>)
                     [Execute (CallbackScript (fst f)) (callback_sql e r f) True, Commit])
      | None \<Rightarrow>
          (Inr (), settle w d
                     [Execute (CallbackScript (fst f)) (callback_sql e r f) False, Rollback,
                      ScriptFailed (fst f)]))"
  using assms
  by (auto simp: run_script_def read_text_def callback_sql_def synced_def bind_result_def
      execute_script_def commit_def rollback_def log_def Let_def settle_def
      split: option.splits)

section \<open>The loop over the pending migrations\<close>

lemma apply_migration_step:
  assumes "synced w d" and "script_text e r m \<noteq> None"
  shows "apply_migration e r m False w =
     (case run_sql e (script_sql e r m) (content d) of
        Some c \<Rightarrow>
          if insertable (migration_row r m True) (ledger d)
          then (Inr True, settle w (append_row (migration_row r m True) (d\<lparr>content := c\<rparr>))
                            (applied_events e r m))
          else (Inl Psycopg2Error, settle w (d\<lparr>content := c\<rparr>) (unrecorded_events e r m))
      | None \<Rightarrow>
          if insertable (migration_row r m True) (ledger d)
          then (Inr False, settle w (append_row (migration_row r m False) d)
                             (failed_events e r m))
          else (Inl Psycopg2Error, settle w d (failed_unrecorded_events e r m)))"
proof -
  from assms(2) obtain body where b: "script_text e r m = Some body"
    by auto
  show ?thesis
    using apply_migration_synced [OF assms(1) b]
    by (auto simp: Let_def script_sql_def b applied_events_def unrecorded_events_def
        failed_events_def failed_unrecorded_events_def split: option.splits)
qed

text \<open>The relation has a run from every database, and the loop goes as the relation says.\<close>

lemma applied_run_total: "\<exists>res d' es. applied_run e r dry ms n d res d' es"
proof (induction ms arbitrary: n d)
  case Nil
  show ?case by (blast intro: applied_run.finished)
next
  case (Cons m ms)
  show ?case
  proof (cases "script_text e r m")
    case None
    then show ?thesis by (blast intro: applied_run.unread)
  next
    case (Some body)
    then have t: "script_text e r m \<noteq> None" by simp
    show ?thesis
    proof (cases dry)
      case True
      with t Cons.IH [of "n + 1" d] show ?thesis by (blast intro: applied_run.previewed)
    next
      case False
      let ?ok = "insertable (migration_row r m True) (ledger d)"
      show ?thesis
      proof (cases "run_sql e (script_sql e r m) (content d)")
        case None
        with False t show ?thesis
          by (cases ?ok) (blast intro: applied_run.failed applied_run.failed_unrecorded)+
      next
        case (Some c)
        show ?thesis
        proof (cases ?ok)
          case True
          with False t Some
            Cons.IH [of "n + 1" "append_row (migration_row r m True) (d\<lparr>content := c\<rparr>)"]
          show ?thesis by (blast intro: applied_run.applied)
        next
          case no: False
          with False t Some show ?thesis by (blast intro: applied_run.unrecorded)
        qed
      qed
    qed
  qed
qed

lemma applied_run_apply_pending:
  assumes "applied_run e r dry ms n d res d' es" and "synced w d" and "on_disk r ms"
  shows "apply_pending e r dry ms n w = (res, settle w d' es)"
  using assms
proof (induction arbitrary: w rule: applied_run.induct)
  case (finished n d)
  then show ?case using synced_eq_settle [of w d] by simp
next
  case (unread m ms n d)
  then have "map_of (migrations_dir r) (filepath m) \<noteq> None" by (simp add: on_disk_def)
  from apply_migration_unread [OF this unread.hyps, of dry w] show ?case
    using synced_eq_settle [OF unread.prems(1)] by (simp add: bind_result_def)
next
  case (previewed m ms n d res d' es)
  from previewed.prems have "on_disk r ms" by (simp add: on_disk_def)
  from previewed.IH [OF previewed.prems(1) this] show ?case
    using previewed.hyps(1,2) by (simp add: apply_migration_dry_run bind_result_def)
next
  case (applied m d c ms n res d' es)
  let ?d1 = "append_row (migration_row r m True) (d\<lparr>content := c\<rparr>)"
  from applied.prems have "on_disk r ms" by (simp add: on_disk_def)
  from applied.IH [of "settle w ?d1 (applied_events e r m)", OF _ this] show ?case
    using applied.hyps(1-4) apply_migration_step [OF applied.prems(1) applied.hyps(2)]
    by (simp add: bind_result_def)
next
  case (unrecorded m d c ms n)
  then show ?case
    using apply_migration_step [OF unrecorded.prems(1) unrecorded.hyps(2)]
    by (simp add: bind_result_def)
next
  case (failed m d ms n)
  then show ?case
    using apply_migration_step [OF failed.prems(1) failed.hyps(2)]
    by (simp add: bind_result_def)
next
  case (failed_unrecorded m d ms n)
  then show ?case
    using apply_migration_step [OF failed_unrecorded.prems(1) failed_unrecorded.hyps(2)]
    by (simp add: bind_result_def)
qed

lemma apply_pending_applied_run:
  assumes "synced w d" and "on_disk r ms" and "apply_pending e r dry ms n w = (res, w')"
  shows "\<exists>d' es. w' = settle w d' es \<and> applied_run e r dry ms n d res d' es"
proof -
  from applied_run_total [of e r dry ms n d] obtain res0 d' es where
    run: "applied_run e r dry ms n d res0 d' es"
    by blast
  from applied_run_apply_pending [OF run assms(1,2)] assms(3)
  have "res = res0" "w' = settle w d' es" by simp_all
  with run show ?thesis by blast
qed

lemma applied_run_dry:
  "applied_run e r dry ms n d res d' es \<Longrightarrow> dry \<Longrightarrow> es = [] \<and> d' = d"
  by (induction rule: applied_run.induct) simp_all

lemma applied_run_events:
  "applied_run e r dry ms n d res d' es \<Longrightarrow> \<forall>ev \<in> set es. is_apply_event ev"
  by (induction rule: applied_run.induct)
     (auto simp: applied_events_def unrecorded_events_def failed_events_def
        failed_unrecorded_events_def)

lemma applied_run_ledger:
  assumes "applied_run e r dry ms n d res d' es" and "ledger d = Some rows"
  shows "\<exists>new. ledger d' = Some (rows @ new)
               \<and> (\<forall>x \<in> set new. script x \<notin> set (map script rows))"
  using assms
proof (induction arbitrary: rows rule: applied_run.induct)
  case (applied m d c ms n res d' es)
  let ?x = "stored (migration_row r m True)"
  have "ledger (append_row (migration_row r m True) (d\<lparr>content := c\<rparr>)) = Some (rows @ [?x])"
    using applied.prems by (simp add: append_row_def)
  from applied.IH [OF this] obtain new where
    "ledger d' = Some ((rows @ [?x]) @ new)"
    "\<forall>x \<in> set new. script x \<notin> set (map script (rows @ [?x]))"
    by blast
  moreover have "script ?x \<notin> set (map script rows)"
    using applied.hyps(4) applied.prems by (simp add: insertable_def)
  ultimately show ?case by (intro exI [of _ "?x # new"]) auto
next
  case (failed m d ms n)
  then show ?case
    by (intro exI [of _ "[stored (migration_row r m False)]"])
       (simp add: append_row_def insertable_def stored_def migration_row_def)
qed auto

lemma applied_run_prefix:
  "applied_run e r dry ms n d res d' es \<Longrightarrow> prefix (map fst (executions es)) (map filename ms)"
proof (induction rule: applied_run.induct)
  case (previewed m ms n d res d' es)
  from applied_run_dry [OF previewed.hyps(3,1)] show ?case by simp
qed (auto simp: applied_events_def unrecorded_events_def failed_events_def
       failed_unrecorded_events_def)

lemma applied_run_failure_last:
  "applied_run e r dry ms n d res d' es \<Longrightarrow> executions es = xs @ (f, False) # ys \<Longrightarrow> ys = []"
proof (induction arbitrary: xs rule: applied_run.induct)
  case (applied m d c ms n res d' es)
  from applied.prems obtain xs' where "executions es = xs' @ (f, False) # ys"
    by (cases xs) (auto simp: applied_events_def)
  then show ?case by (rule applied.IH)
qed (auto simp: unrecorded_events_def failed_events_def failed_unrecorded_events_def
       Cons_eq_append_conv)

lemma applied_run_success:
  assumes "applied_run e r dry ms n d (Inr (True, k)) d' es" and "ledger d = Some rows"
    and "\<not> dry"
  shows "ledger d' = Some (rows @ map (\<lambda>m. stored (migration_row r m True)) ms)
         \<and> executions es = map (\<lambda>m. (filename m, True)) ms"
  using assms
proof (induction ms n d "Inr (True, k) :: error + bool \<times> nat" d' es arbitrary: rows
       rule: applied_run.induct)
  case (applied m d c ms n d' es)
  have "ledger (append_row (migration_row r m True) (d\<lparr>content := c\<rparr>))
        = Some (rows @ [stored (migration_row r m True)])"
    using applied.prems by (simp add: append_row_def)
  from applied.hyps(6) [OF this applied.prems(2)] show ?case by (simp add: applied_events_def)
qed auto

lemma applied_run_count:
  "applied_run e r dry ms n d (Inr (True, k)) d' es \<Longrightarrow> k = n + length ms"
  by (induction ms n d "Inr (True, k) :: error + bool \<times> nat" d' es rule: applied_run.induct)
     simp_all

text \<open>What stops the loop: a script that the database rejects, a ledger row that it
  rejects, or a file that cannot be read as text.\<close>

lemma applied_run_halted:
  "applied_run e r dry ms n d (Inr (False, k)) d' es
   \<Longrightarrow> \<exists>m \<in> set ms. Execute (MigrationScript (filename m)) (script_sql e r m) False \<in> set es"
  by (induction ms n d "Inr (False, k) :: error + bool \<times> nat" d' es rule: applied_run.induct)
     (auto simp: failed_events_def)

lemma applied_run_raised:
  "applied_run e r dry ms n d (Inl err) d' es
   \<Longrightarrow> (err = UnicodeDecodeError \<and> (\<exists>m \<in> set ms. script_text e r m = None))
       \<or> (err = Psycopg2Error \<and> (\<exists>m \<in> set ms. Insert (migration_row r m False) False \<in> set es))"
  by (induction ms n d "Inl err :: error + bool \<times> nat" d' es rule: applied_run.induct)
     (auto simp: unrecorded_events_def failed_unrecorded_events_def)

section \<open>The callback scripts\<close>

lemma run_after_migrate_scripts_eq:
  "run_after_migrate_scripts e r dry w = run_scripts e r dry (callback_files r) w"
  by (simp add: run_after_migrate_scripts_def callback_files_def Let_def split: option.splits)

lemma callback_run_total: "\<exists>res d' es. callback_run e r dry fs d res d' es"
proof (induction fs arbitrary: d)
  case Nil
  show ?case by (blast intro: callback_run.no_more)
next
  case (Cons f fs)
  show ?case
  proof (cases "decode e (snd f)")
    case None
    then show ?thesis by (blast intro: callback_run.unread)
  next
    case (Some body)
    then have t: "decode e (snd f) \<noteq> None" by simp
    show ?thesis
    proof (cases dry)
      case True
      with t Cons.IH [of d] show ?thesis by (blast intro: callback_run.previewed)
    next
      case False
      show ?thesis
      proof (cases "run_sql e (callback_sql e r f) (content d)")
        case None
        with False t Cons.IH [of d] show ?thesis by (blast intro: callback_run.script_failed)
      next
        case (Some c)
        with False t Cons.IH [of "d\<lparr>content := c\<rparr>"] show ?thesis
          by (blast intro: callback_run.executed)
      qed
    qed
  qed
qed

lemma callback_run_run_scripts:
  assumes "callback_run e r dry fs d res d' es" and "synced w d"
  shows "run_scripts e r dry fs w = (res, settle w d' es)"
  using assms
proof (induction arbitrary: w rule: callback_run.induct)
  case (no_more d)
  then show ?case using synced_eq_settle [of w d] by simp
next
  case (unread f fs d)
  then show ?case
    using synced_eq_settle [of w d] by (simp add: run_script_unread bind_result_def)
next
  case (previewed f fs d res d' es)
  from previewed.IH [OF previewed.prems] show ?case
    using previewed.hyps(1,2) by (simp add: run_script_dry_run bind_result_def)
next
  case (executed f d c fs res d' es)
  let ?ev = "[Execute (CallbackScript (fst f)) (callback_sql e r f) True, Commit]"
  from executed.IH [of "settle w (d\<lparr>content := c\<rparr>) ?ev"] show ?case
    using executed.hyps(1-3) run_script_synced [OF executed.prems executed.hyps(2), of r]
    by (simp add: bind_result_def)
next
  case (script_failed f d fs res d' es)
  let ?ev = "[Execute (CallbackScript (fst f)) (callback_sql e r f) False, Rollback,
              ScriptFailed (fst f)]"
  from script_failed.IH [of "settle w d ?ev"] show ?case
    using script_failed.hyps(1-3)
      run_script_synced [OF script_failed.prems script_failed.hyps(2), of r]
    by (simp add: bind_result_def)
qed

lemma callback_run_dry:
  "callback_run e r dry fs d res d' es \<Longrightarrow> dry \<Longrightarrow> es = [] \<and> d' = d"
  by (induction rule: callback_run.induct) simp_all

lemma callback_run_events:
  "callback_run e r dry fs d res d' es \<Longrightarrow> \<forall>ev \<in> set es. is_callback_event ev"
  by (induction rule: callback_run.induct) auto

lemma callback_run_ledger: "callback_run e r dry fs d res d' es \<Longrightarrow> ledger d' = ledger d"
  by (induction rule: callback_run.induct) auto

lemma callback_run_raised:
  "callback_run e r dry fs d (Inl err) d' es
   \<Longrightarrow> err = UnicodeDecodeError \<and> (\<exists>f \<in> set fs. decode e (snd f) = None)"
  by (induction fs d "Inl err :: error + unit" d' es rule: callback_run.induct) auto

lemma callback_run_readable:
  "callback_run e r dry fs d res d' es \<Longrightarrow> \<forall>f \<in> set fs. decode e (snd f) \<noteq> None
   \<Longrightarrow> res = Inr ()"
  by (induction rule: callback_run.induct) auto

lemma callback_run_all:
  "callback_run e r dry fs d (Inr ()) d' es \<Longrightarrow> \<not> dry
   \<Longrightarrow> map fst (callbacks es) = map fst fs"
  by (induction fs d "Inr () :: error + unit" d' es rule: callback_run.induct) auto

lemma callback_run_content:
  "callback_run e r dry fs d (Inr ()) d' es \<Longrightarrow> \<not> dry
   \<Longrightarrow> d' = d\<lparr>content := callback_content e r fs (content d)\<rparr>"
  by (induction fs d "Inr () :: error + unit" d' es rule: callback_run.induct) auto

lemma callback_run_handled:
  "callback_run e r dry fs d res d' es
   \<Longrightarrow> es = es1 @ Execute (CallbackScript n) sql False # es2
   \<Longrightarrow> \<exists>es3. es2 = Rollback # ScriptFailed n # es3"
proof (induction arbitrary: es1 rule: callback_run.induct)
  case (executed f d c fs res d' es)
  from executed.prems obtain es1' where "es = es1' @ Execute (CallbackScript n) sql False # es2"
    by (auto simp: Cons_eq_append_conv)
  then show ?case by (rule executed.IH)
next
  case (script_failed f d fs res d' es)
  show ?case
  proof (cases es1)
    case Nil
    with script_failed.prems show ?thesis by auto
  next
    case (Cons a as)
    with script_failed.prems obtain es1' where
      "es = es1' @ Execute (CallbackScript n) sql False # es2"
      by (auto simp: Cons_eq_append_conv)
    then show ?thesis by (rule script_failed.IH)
  qed
qed simp_all

lemma callback_phase:
  assumes "synced w d"
  shows "\<exists>res d' es.
           (if called then run_after_migrate_scripts e r dry w else (Inr (), w))
             = (res, settle w d' es)
           \<and> callback_phase e r called dry d res d' es"
proof (cases called)
  case True
  from callback_run_total [of e r dry "callback_files r" d] obtain res d' es where
    run: "callback_run e r dry (callback_files r) d res d' es"
    by blast
  from callback_run_run_scripts [OF run assms] run True show ?thesis
    by (auto simp: run_after_migrate_scripts_eq callback_phase_def)
next
  case False
  then show ?thesis
    using synced_eq_settle [OF assms] by (auto simp: callback_phase_def)
qed

lemma callback_phase_run:
  assumes "callback_phase e r called dry d res d' es" and "synced w d"
  shows "(if called then run_after_migrate_scripts e r dry w else (Inr (), w))
           = (res, settle w d' es)"
proof (cases called)
  case True
  with assms(1) have "callback_run e r dry (callback_files r) d res d' es"
    by (simp add: callback_phase_def)
  from callback_run_run_scripts [OF this assms(2)] True show ?thesis
    by (simp add: run_after_migrate_scripts_eq)
next
  case False
  with assms show ?thesis
    using synced_eq_settle [OF assms(2)] by (auto simp: callback_phase_def)
qed

lemma callback_phase_events:
  "callback_phase e r called dry d res d' es \<Longrightarrow> \<forall>ev \<in> set es. is_callback_event ev"
  by (auto simp: callback_phase_def dest: callback_run_events split: if_splits)

lemma callback_phase_ledger:
  "callback_phase e r called dry d res d' es \<Longrightarrow> ledger d' = ledger d"
  by (auto simp: callback_phase_def dest: callback_run_ledger split: if_splits)

lemma callback_phase_raised:
  "callback_phase e r called dry d (Inl err) d' es
   \<Longrightarrow> err = UnicodeDecodeError \<and> (\<exists>f \<in> set (callback_files r). decode e (snd f) = None)"
  by (auto simp: callback_phase_def dest: callback_run_raised split: if_splits)

section \<open>The ways a run of migrate can go\<close>

lemma close_settle [simp]: "close (settle w d es) = closed w d es"
  by (simp add: close_def settle_def closed_def log_def)

lemma closed_simps [simp]:
  "server (closed w d es) = Some d" "conn (closed w d es) = None"
  "trace (closed w d es) = trace w @ es @ [Close]"
  by (simp_all add: closed_def)

lemma world_updates:
  "w\<lparr>server := s\<rparr> = \<lparr>server = s, conn = conn w, trace = trace w\<rparr>"
  "w\<lparr>conn := c\<rparr> = \<lparr>server = server w, conn = c, trace = trace w\<rparr>"
  "w\<lparr>trace := t\<rparr> = \<lparr>server = server w, conn = conn w, trace = t\<rparr>"
  by (cases w; simp)+

lemma migrate_conclude:
  "migrate e r dry w =
     bind_result (ensure_database_exists e r w) (\<lambda>db_created w.
     bind_result (connect w) (\<lambda>_ w.
     bind_result (if \<not> dry then initialize_schema_table w else (Inr (), w)) (\<lambda>_ w.
     bind_result (get_pending_migrations e r w) (conclude e r dry db_created))))"
  unfolding migrate_def conclude_def [abs_def] by (rule refl)

lemma migrate_eq:
  "migrate e r dry w =
     bind_result (get_pending_migrations e r
                    (settle w (prepared_db e dry w) (prepared_events r dry w)))
       (conclude e r dry (server w = None))"
  by (cases "server w"; cases dry)
     (simp_all add: migrate_conclude bind_result_def ensure_database_exists_def connect_def
        initialize_schema_table_def commit_def log_def settle_def prepared_db_def
        prepared_events_def Let_def world_updates
        split: option.splits)

lemma all_migrations_eq:
  "from_files e (migrations_dir r) (glob_sql (migrations_dir r)) = Inr (all_migrations e r)"
  using all_migrations_Inr [of e "migrations_dir r"] by (auto simp: all_migrations_def)

lemma all_migrations_names: "map filename (all_migrations e r) = glob_sql (migrations_dir r)"
  using all_migrations_Inr [of e "migrations_dir r"] by (auto simp: all_migrations_def)

lemma all_migrations_files:
  "m \<in> set (all_migrations e r) \<Longrightarrow>
     filepath m = filename m \<and> map_of (migrations_dir r) (filename m) \<noteq> None
     \<and> Some (checksum m) = map_option (md5 e) (map_of (migrations_dir r) (filename m))"
  using all_migrations_Inr [of e "migrations_dir r"] by (auto simp: all_migrations_def)

lemma on_disk_pending_of: "on_disk r (pending_of e r rows)"
  using all_migrations_files [of _ e r] by (auto simp: on_disk_def pending_of_def)

lemma get_pending_migrations_settled:
  "ledger d = Some rows \<Longrightarrow>
     get_pending_migrations e r (settle w d es)
     = (Inr (pending_of e r rows), settle w d (es @ select_events e r rows))"
  using get_pending_migrations_eq [of "settle w d es" d rows e r, OF _ _ all_migrations_eq]
  by (simp add: pending_of_def select_events_def settle_def)

lemma get_pending_migrations_no_table:
  "ledger d = None \<Longrightarrow>
     get_pending_migrations e r (settle w d es)
     = (Inl Psycopg2Error, settle w d (es @ [Select False]))"
  by (simp add: get_pending_migrations_def all_migrations_eq get_applied_migrations_def
      bind_result_def settle_def log_def)

lemma prepared_db_ledger: "\<not> dry \<Longrightarrow> ledger (prepared_db e dry w) \<noteq> None"
  by (auto simp: prepared_db_def Let_def split: option.splits)

inductive_cases applied_run_NilE: "applied_run e r dry [] n d res d' es"

lemma conclude_outcome:
  assumes "applied_run e r dry ms 0 d resL d2 es" and "on_disk r ms"
    and "callback_phase e r (ms \<noteq> [] \<or> \<not> created) dry d2 resC d' cb"
  shows "conclude e r dry created ms (settle w d es0) = outcome w es0 resL d2 es resC d' cb"
proof (cases "ms = []")
  case True
  with assms(1) have l: "resL = Inr (True, 0)" "d2 = d" "es = []"
    by (auto elim: applied_run_NilE)
  from callback_phase_run [OF assms(3), of "settle w d es0"] True l
  have "(if \<not> created then run_after_migrate_scripts e r dry (settle w d es0)
         else (Inr (), settle w d es0)) = (resC, settle w d' (es0 @ cb))"
    by simp
  with True l show ?thesis
    by (cases resC) (simp_all add: conclude_def outcome_def bind_result_def)
next
  case False
  from applied_run_apply_pending [OF assms(1) _ assms(2), of "settle w d es0"]
  have loop: "apply_pending e r dry ms 0 (settle w d es0) = (resL, settle w d2 (es0 @ es))"
    by simp
  show ?thesis
  proof (cases resL)
    case (Inl err)
    with False loop show ?thesis by (simp add: conclude_def outcome_def bind_result_def)
  next
    case (Inr a)
    obtain ok k where a: "a = (ok, k)" by (cases a)
    show ?thesis
    proof (cases ok)
      case stop: False
      with False loop Inr a show ?thesis by (simp add: conclude_def outcome_def bind_result_def)
    next
      case True
      from assms(1) Inr a True have k: "k = length ms"
        using applied_run_count [of e r dry ms 0 d k d2 es] by simp
      with False have pos: "0 < k" by simp
      from callback_phase_run [OF assms(3), of "settle w d2 (es0 @ es)"] False
      have "run_after_migrate_scripts e r dry (settle w d2 (es0 @ es))
            = (resC, settle w d' (es0 @ es @ cb))"
        by simp
      with False loop Inr a True pos show ?thesis
        by (cases resC) (simp_all add: conclude_def outcome_def bind_result_def)
    qed
  qed
qed

lemma migrate_outcome:
  assumes "ledger (prepared_db e dry w) = Some rows"
    and "applied_run e r dry (pending_of e r rows) 0 (prepared_db e dry w) resL d2 es"
    and "callback_phase e r (pending_of e r rows \<noteq> [] \<or> server w \<noteq> None) dry d2 resC d' cb"
  shows "migrate e r dry w
         = outcome w (prepared_events r dry w @ select_events e r rows) resL d2 es resC d' cb"
  using conclude_outcome [OF assms(2) on_disk_pending_of, of "server w = None" resC d' cb w
      "prepared_events r dry w @ select_events e r rows"] assms(1,3)
  by (simp add: migrate_eq get_pending_migrations_settled bind_result_def)

lemma migrate_cases [consumes 1, case_names no_table halted raised completed callback_raised]:
  assumes "migrate e r dry w = (res, w')"
  obtains
    (no_table) "dry" and "ledger (prepared_db e dry w) = None" and "res = Inl Psycopg2Error"
      and "w' = settle w (prepared_db e dry w) (prepared_events r dry w @ [Select False])"
  | (halted) rows k d' es where "ledger (prepared_db e dry w) = Some rows"
      and "applied_run e r dry (pending_of e r rows) 0 (prepared_db e dry w)
             (Inr (False, k)) d' es"
      and "res = Inr 1"
      and "w' = closed w d' (prepared_events r dry w @ select_events e r rows @ es)"
  | (raised) rows err d' es where "ledger (prepared_db e dry w) = Some rows"
      and "applied_run e r dry (pending_of e r rows) 0 (prepared_db e dry w) (Inl err) d' es"
      and "res = Inl err"
      and "w' = settle w d' (prepared_events r dry w @ select_events e r rows @ es)"
  | (completed) rows d2 es d' cb where "ledger (prepared_db e dry w) = Some rows"
      and "applied_run e r dry (pending_of e r rows) 0 (prepared_db e dry w)
             (Inr (True, length (pending_of e r rows))) d2 es"
      and "callback_phase e r (pending_of e r rows \<noteq> [] \<or> server w \<noteq> None) dry d2
             (Inr ()) d' cb"
      and "res = Inr 0"
      and "w' = closed w d' (prepared_events r dry w @ select_events e r rows @ es @ cb)"
  | (callback_raised) rows d2 es err d' cb where "ledger (prepared_db e dry w) = Some rows"
      and "applied_run e r dry (pending_of e r rows) 0 (prepared_db e dry w)
             (Inr (True, length (pending_of e r rows))) d2 es"
      and "callback_phase e r (pending_of e r rows \<noteq> [] \<or> server w \<noteq> None) dry d2
             (Inl err) d' cb"
      and "res = Inl err"
      and "w' = settle w d' (prepared_events r dry w @ select_events e r rows @ es @ cb)"
proof -
  let ?d = "prepared_db e dry w" and ?pe = "prepared_events r dry w"
  show thesis
  proof (cases "ledger ?d")
    case None
    then have "dry" using prepared_db_ledger [of dry e w] by (cases dry) auto
    moreover have "res = Inl Psycopg2Error" "w' = settle w ?d (?pe @ [Select False])"
      using assms None by (simp_all add: migrate_eq get_pending_migrations_no_table bind_result_def)
    ultimately show thesis using None no_table by blast
  next
    case (Some rows)
    let ?p = "pending_of e r rows"
    from applied_run_total [of e r dry ?p 0 ?d] obtain resL d2 es where
      run: "applied_run e r dry ?p 0 ?d resL d2 es"
      by blast
    from callback_phase [of "settle w d2 []" d2 "?p \<noteq> [] \<or> server w \<noteq> None" e r dry]
    obtain resC d' cb where
      cb: "callback_phase e r (?p \<noteq> [] \<or> server w \<noteq> None) dry d2 resC d' cb"
      by auto
    from migrate_outcome [OF Some run cb] assms
    have m: "(res, w') = outcome w (?pe @ select_events e r rows) resL d2 es resC d' cb"
      by simp
    show thesis
    proof (cases resL)
      case (Inl err)
      with m have "res = Inl err" "w' = settle w d2 (?pe @ select_events e r rows @ es)"
        by (simp_all add: outcome_def)
      with Some run Inl show thesis using raised [of rows err d2 es] by simp
    next
      case (Inr a)
      obtain ok k where a: "a = (ok, k)" by (cases a)
      show thesis
      proof (cases ok)
        case stop: False
        with m Inr a have "res = Inr 1" "w' = closed w d2 (?pe @ select_events e r rows @ es)"
          by (simp_all add: outcome_def)
        with Some run Inr a stop show thesis using halted [of rows k d2 es] by simp
      next
        case True
        from run Inr a True have k: "k = length ?p"
          using applied_run_count [of e r dry ?p 0 ?d k d2 es] by simp
        show thesis
        proof (cases resC)
          case (Inl err)
          with m Inr a True have "res = Inl err"
            "w' = settle w d' (?pe @ select_events e r rows @ es @ cb)"
            by (simp_all add: outcome_def)
          with Some run Inr a True k cb Inl show thesis
            using callback_raised [of rows d2 es err d' cb] by simp
        next
          case ok: (Inr u)
          with m Inr a True have "res = Inr 0"
            "w' = closed w d' (?pe @ select_events e r rows @ es @ cb)"
            by (simp_all add: outcome_def)
          with Some run Inr a True k cb ok show thesis
            using completed [of rows d2 es d' cb] by simp
        qed
      qed
    qed
  qed
qed

section \<open>What a run executes\<close>

lemma executions_mem:
  "(n, ok) \<in> set (executions es) \<longleftrightarrow> (\<exists>sql. Execute (MigrationScript n) sql ok \<in> set es)"
  by (induction es rule: executions.induct) auto

lemma executions_callback_events:
  "\<forall>ev \<in> set es. is_callback_event ev \<Longrightarrow> executions es = []"
  by (induction es rule: executions.induct) auto

lemma executions_select_events [simp]: "executions (select_events e r rows) = []"
proof -
  have "executions (map (\<lambda>m. ChecksumMismatch (filename m)) ms) = []" for ms :: "migration list"
    by (induction ms) simp_all
  then show ?thesis by (simp add: select_events_def)
qed

lemma executions_prepared_events [simp]: "executions (prepared_events r dry w) = []"
  by (simp add: prepared_events_def)

lemma executions_callback_phase:
  "callback_phase e r called dry d res d' cb \<Longrightarrow> executions cb = []"
  by (blast intro: executions_callback_events dest: callback_phase_events)

lemma sorted_pending_of: "sorted (map filename (pending_of e r rows))"
proof -
  have "map filename (pending_of e r rows)
        = filter (\<lambda>n. n \<notin> set (map script rows)) (glob_sql (migrations_dir r))"
    by (simp add: pending_of_def filter_map comp_def flip: all_migrations_names [of e r])
  then show ?thesis using sorted_glob_sql [of "migrations_dir r"] by (simp add: sorted_wrt_filter)
qed

lemma migrate_executions:
  assumes "migrate e r dry w = (res, w')"
  obtains (nothing) "executions (new_events w w') = []"
  | (loop) rows d resL d' es where
      "applied_run e r dry (pending_of e r rows) 0 d resL d' es"
      and "executions (new_events w w') = executions es"
  using assms
proof (cases rule: migrate_cases)
  case no_table
  then have "executions (new_events w w') = []" by simp
  then show ?thesis by (rule nothing)
next
  case (halted rows k d' es)
  then have "executions (new_events w w') = executions es" by simp
  with halted(2) show ?thesis by (rule loop)
next
  case (raised rows err d' es)
  then have "executions (new_events w w') = executions es" by simp
  with raised(2) show ?thesis by (rule loop)
next
  case (completed rows d2 es d' cb)
  then have "executions (new_events w w') = executions es"
    by (simp add: executions_callback_phase)
  with completed(2) show ?thesis by (rule loop)
next
  case (callback_raised rows d2 es err d' cb)
  then have "executions (new_events w w') = executions es"
    by (simp add: executions_callback_phase)
  with callback_raised(2) show ?thesis by (rule loop)
qed

lemma no_script_failed_applied_run:
  assumes "applied_run e r dry ms k d res d' es"
  shows "ScriptFailed n \<notin> set es"
proof
  assume "ScriptFailed n \<in> set es"
  with applied_run_events [OF assms] have "is_apply_event (ScriptFailed n)" by blast
  then show False by simp
qed

lemma no_script_failed_setup [simp]:
  "ScriptFailed n \<notin> set (prepared_events r dry w)"
  "ScriptFailed n \<notin> set (select_events e r rows)"
  by (auto simp: prepared_events_def select_events_def)

lemma prepared_db_existing:
  "server w = Some d \<Longrightarrow> ledger d = Some rows \<Longrightarrow> prepared_db e dry w = d"
  by (simp add: prepared_db_def)

lemma all_migrations_mem:
  assumes "endswith f ''.sql''" and "map_of (migrations_dir r) f = Some body"
  shows "\<exists>m \<in> set (all_migrations e r). filename m = f \<and> checksum m = md5 e body"
proof -
  have "f \<in> set (map fst (migrations_dir r))"
    using assms(2) by (metis map_of_eq_None_iff option.distinct(1) set_map)
  with assms(1) have "f \<in> set (map filename (all_migrations e r))"
    by (simp add: all_migrations_names set_glob_sql)
  then obtain m where m: "m \<in> set (all_migrations e r)" "filename m = f" by auto
  with all_migrations_files [OF m(1)] assms(2) show ?thesis by auto
qed

lemma executed_is_pending:
  assumes "applied_run e r dry ms k d res d' es"
    and "Execute (MigrationScript f) sql ok \<in> set es"
  shows "f \<in> set (map filename ms)"
proof -
  from assms(2) have "f \<in> set (map fst (executions es))"
    using executions_mem [of f ok es] by force
  moreover from applied_run_prefix [OF assms(1)] obtain zs where
    "map filename ms = map fst (executions es) @ zs"
    by (auto simp: prefix_def)
  then have "set (map fst (executions es)) \<subseteq> set (map filename ms)"
    by (metis set_append Un_upper1)
  ultimately show ?thesis by blast
qed

lemma concat_characters: "concat (characters s) = s"
  by (induction s rule: characters.induct) simp_all

lemma length_characters: "length (characters s) \<le> length s"
proof (induction s rule: characters.induct)
  case 1
  show ?case by simp
next
  case (2 c cs)
  have "length (dropWhile continuation_byte cs) \<le> length cs" by (rule length_dropWhile_le)
  with 2 show ?case by simp
qed

lemma stored_script:
  assumes "length (filename m) \<le> 1000"
  shows "script (stored (migration_row r m True)) = filename m"
proof -
  from assms length_characters [of "filename m"] have "length (characters (filename m)) \<le> 1000"
    by simp
  then show ?thesis
    by (simp add: stored_def migration_row_def truncate_to_def concat_characters)
qed

lemma successful_run_records_all:
  assumes "migrate e r False w = (Inr 0, w1)" and "valid_directory (migrations_dir r)"
  shows "\<exists>d1 rows1. server w1 = Some d1 \<and> ledger d1 = Some rows1 \<and> pending_of e r rows1 = []"
  using assms(1)
proof (cases rule: migrate_cases)
  case (completed rows d2 es d' cb)
  let ?p = "pending_of e r rows"
  let ?new = "map (\<lambda>m. stored (migration_row r m True)) ?p"
  from applied_run_success [OF completed(2,1)] have l2: "ledger d2 = Some (rows @ ?new)"
    by simp
  with callback_phase_ledger [OF completed(3)] have l': "ledger d' = Some (rows @ ?new)" by simp
  have short: "length (filename m) \<le> 1000" if "m \<in> set (all_migrations e r)" for m
  proof -
    from that have "filename m \<in> set (glob_sql (migrations_dir r))"
      using all_migrations_names [of e r] by (metis imageI set_map)
    then have "filename m \<in> set (map fst (migrations_dir r))" by (simp add: set_glob_sql)
    with assms(2) have "length (filename m) \<le> 255" by (auto simp: valid_directory_def)
    then show ?thesis by simp
  qed
  have "filename m \<in> set (map script (rows @ ?new))" if m: "m \<in> set (all_migrations e r)" for m
  proof (cases "filename m \<in> set (map script rows)")
    case True
    then show ?thesis by simp
  next
    case False
    with m have "m \<in> set ?p" by (simp add: pending_of_def)
    then have "script (stored (migration_row r m True)) \<in> set (map script ?new)" by simp
    with stored_script [OF short [OF m], of r] show ?thesis by simp
  qed
  then have "pending_of e r (rows @ ?new) = []"
    by (simp add: pending_of_def filter_empty_conv)
  with completed l' show ?thesis by simp
qed simp_all

lemma no_insert_outside_loop [simp]:
  "Insert row ok \<notin> set (prepared_events r dry w)"
  "Insert row ok \<notin> set (select_events e r rows)"
  by (auto simp: prepared_events_def select_events_def)

lemma no_insert_callback_phase:
  assumes "callback_phase e r called dry d res d' cb"
  shows "Insert row ok \<notin> set cb"
proof
  assume "Insert row ok \<in> set cb"
  with callback_phase_events [OF assms] have "is_callback_event (Insert row ok)" by blast
  then show False by simp
qed

lemma callback_phase_dry:
  "callback_phase e r called True d res d' cb \<Longrightarrow> cb = [] \<and> d' = d"
  by (auto simp: callback_phase_def dest: callback_run_dry split: if_splits)

section \<open>What holds where the dry run and the ledger fall short\<close>

text \<open>
  A dry run on a database that exists leaves it as it was and sends nothing but the
  connection and the \<open>SELECT\<close> on the ledger.
\<close>

lemma dry_run_leaves_existing_database:
  assumes "migrate e r True w = (res, w')" and "server w = Some d"
  shows "server w' = Some d
         \<and> (\<forall>ev \<in> set (new_events w w').
               ev = Connect \<or> ev = Close \<or> (\<exists>ok. ev = Select ok)
               \<or> (\<exists>n. ev = ChecksumMismatch n))"
proof -
  have pd: "prepared_db e True w = d" using assms(2) by (simp add: prepared_db_def)
  have pe: "prepared_events r True w = [Connect]" using assms(2) by (simp add: prepared_events_def)
  from assms(1) show ?thesis
  proof (cases rule: migrate_cases)
    case no_table
    then show ?thesis using pd pe by auto
  next
    case (halted rows k d' es)
    with applied_run_dry [OF halted(2)] show ?thesis
      using pd pe by (auto simp: select_events_def)
  next
    case (raised rows err d' es)
    with applied_run_dry [OF raised(2)] show ?thesis
      using pd pe by (auto simp: select_events_def)
  next
    case (completed rows d2 es d' cb)
    with applied_run_dry [OF completed(2)] callback_phase_dry [OF completed(3)] show ?thesis
      using pd pe by (auto simp: select_events_def)
  next
    case (callback_raised rows d2 es err d' cb)
    with applied_run_dry [OF callback_raised(2)] callback_phase_dry [OF callback_raised(3)]
    show ?thesis
      using pd pe by (auto simp: select_events_def)
  qed
qed

text \<open>
  With a connection that has nothing uncommitted, a file that can be read and a row that
  the ledger table accepts, one application of a migration inserts exactly one row, with
  the outcome of the script as its \<open>success\<close>, after the commit of the script or after the
  rollback of its failure, which leaves nothing of the script in the database.
\<close>

lemma apply_migration_records_attempt:
  assumes "synced w d" and "ledger d = Some rows"
    and "script_text e r m \<noteq> None"
    and "insertable (migration_row r m True) (ledger d)"
  shows "\<exists>ok w' d'.
           apply_migration e r m False w = (Inr ok, w') \<and> synced w' d'
           \<and> ledger d' = Some (rows @ [stored (migration_row r m ok)])
           \<and> (ok \<longleftrightarrow> run_sql e (script_sql e r m) (content d) \<noteq> None)
           \<and> (\<not> ok \<longrightarrow> content d' = content d)
           \<and> new_events w w' = (if ok then applied_events e r m else failed_events e r m)"
proof (cases "run_sql e (script_sql e r m) (content d)")
  case None
  then show ?thesis
    using apply_migration_step [OF assms(1,3)] assms(2,4)
    by (intro exI [of _ False] exI [of _ "settle w (append_row (migration_row r m False) d)
          (failed_events e r m)"] exI [of _ "append_row (migration_row r m False) d"])
       (simp add: append_row_def)
next
  case (Some c)
  then show ?thesis
    using apply_migration_step [OF assms(1,3)] assms(2,4)
    by (intro exI [of _ True]
          exI [of _ "settle w (append_row (migration_row r m True) (d\<lparr>content := c\<rparr>))
            (applied_events e r m)"]
          exI [of _ "append_row (migration_row r m True) (d\<lparr>content := c\<rparr>)"])
       (simp add: append_row_def)
qed

section \<open>A run without a file that the ledger records\<close>

text \<open>
  A file whose name is a \<open>script\<close> of the ledger plays no part in a run but for the warning
  about its checksum: without the file the run has the same result, leaves the same
  database and does the same things, less that warning. And a run on a database that
  has the ledger table returns 0 unless a pending migration or a file that cannot be
  read stops it.
\<close>

lemma map_of_remove: "n \<noteq> f \<Longrightarrow> map_of (filter (\<lambda>x. fst x \<noteq> f) dir) n = map_of dir n"
  by (induction dir) auto

lemma glob_sql_remove:
  "glob_sql (filter (\<lambda>x. fst x \<noteq> f) dir) = filter (\<lambda>n. n \<noteq> f) (glob_sql dir)"
  by (simp add: glob_sql_def filter_sort filter_map comp_def conj_commute)

lemma from_files_remove:
  "f \<notin> set ns \<Longrightarrow> from_files e (filter (\<lambda>x. fst x \<noteq> f) dir) ns = from_files e dir ns"
proof (induction ns)
  case Nil
  show ?case by simp
next
  case (Cons n ns)
  then have "n \<noteq> f" by auto
  then have "from_file e (filter (\<lambda>x. fst x \<noteq> f) dir) n = from_file e dir n"
    by (simp add: from_file_def map_of_remove)
  with Cons show ?case by (simp split: sum.splits)
qed

lemma from_files_filter:
  "from_files e dir ns = Inr ms \<Longrightarrow> map filename ms = ns
   \<Longrightarrow> from_files e dir (filter P ns) = Inr (filter (\<lambda>m. P (filename m)) ms)"
proof (induction ns arbitrary: ms)
  case Nil
  then show ?case by simp
next
  case (Cons n ns)
  from Cons.prems obtain m ms' where
    ms: "ms = m # ms'" "from_file e dir n = Inr m" "from_files e dir ns = Inr ms'"
    by (auto split: sum.splits)
  with Cons.prems have "filename m = n" "map filename ms' = ns" by simp_all
  with Cons.IH [OF ms(3)] ms show ?case by simp
qed

lemma all_migrations_remove:
  "all_migrations e (remove_file f r) = filter (\<lambda>m. filename m \<noteq> f) (all_migrations e r)"
proof -
  let ?dir = "migrations_dir r"
  have "from_files e (filter (\<lambda>x. fst x \<noteq> f) ?dir) (filter (\<lambda>n. n \<noteq> f) (glob_sql ?dir))
        = from_files e ?dir (filter (\<lambda>n. n \<noteq> f) (glob_sql ?dir))"
    by (rule from_files_remove) simp
  also have "\<dots> = Inr (filter (\<lambda>m. filename m \<noteq> f) (all_migrations e r))"
    using all_migrations_eq [of e r] all_migrations_names [of e r] by (rule from_files_filter)
  finally show ?thesis by (simp add: all_migrations_def remove_file_def glob_sql_remove)
qed

lemma pending_of_remove:
  "f \<in> set (map script rows) \<Longrightarrow> pending_of e (remove_file f r) rows = pending_of e r rows"
  by (auto simp: pending_of_def all_migrations_remove intro: filter_cong)

lemma select_events_remove:
  "select_events e (remove_file f r) rows
   = filter (\<lambda>ev. ev \<noteq> ChecksumMismatch f) (select_events e r rows)"
  by (simp add: select_events_def all_migrations_remove filter_map comp_def conj_commute)

lemma remove_file_simps [simp]:
  "template_vars (remove_file f r) = template_vars r" "user (remove_file f r) = user r"
  "database (remove_file f r) = database r"
  "after_migrate_dir (remove_file f r) = after_migrate_dir r"
  by (simp_all add: remove_file_def)

lemma script_text_remove:
  "filepath m \<noteq> f \<Longrightarrow> script_text e (remove_file f r) m = script_text e r m"
  by (simp add: script_text_def remove_file_def map_of_remove)

lemma script_sql_remove:
  "filepath m \<noteq> f \<Longrightarrow> script_sql e (remove_file f r) m = script_sql e r m"
  by (simp add: script_sql_def script_text_remove split: option.splits)

lemma migration_row_remove [simp]: "migration_row (remove_file f r) m ok = migration_row r m ok"
  by (simp add: migration_row_def)

lemma applied_run_remove:
  assumes "applied_run e r dry ms n d res d' es" and "\<forall>m \<in> set ms. filepath m \<noteq> f"
  shows "applied_run e (remove_file f r) dry ms n d res d' es"
  using assms
proof (induction rule: applied_run.induct)
  case (finished n d)
  show ?case by (rule applied_run.finished)
next
  case (unread m ms n d)
  then show ?case by (simp add: applied_run.unread script_text_remove)
next
  case (previewed m ms n d res d' es)
  then show ?case by (simp add: applied_run.previewed script_text_remove)
next
  case (applied m d c ms n res d' es)
  then have "applied_run e (remove_file f r) dry (m # ms) n d res d'
               (applied_events e (remove_file f r) m @ es)"
    by (intro applied_run.applied)
       (simp_all add: script_text_remove script_sql_remove)
  with applied.prems show ?case
    by (simp add: applied_events_def script_sql_remove)
next
  case (unrecorded m d c ms n)
  then have "applied_run e (remove_file f r) dry (m # ms) n d (Inl Psycopg2Error)
               (d\<lparr>content := c\<rparr>) (unrecorded_events e (remove_file f r) m)"
    by (intro applied_run.unrecorded)
       (simp_all add: script_text_remove script_sql_remove)
  with unrecorded.prems show ?case
    by (simp add: unrecorded_events_def script_sql_remove)
next
  case (failed m d ms n)
  then have "applied_run e (remove_file f r) dry (m # ms) n d (Inr (False, n))
               (append_row (migration_row (remove_file f r) m False) d)
               (failed_events e (remove_file f r) m)"
    by (intro applied_run.failed)
       (simp_all add: script_text_remove script_sql_remove)
  with failed.prems show ?case
    by (simp add: failed_events_def script_sql_remove)
next
  case (failed_unrecorded m d ms n)
  then have "applied_run e (remove_file f r) dry (m # ms) n d (Inl Psycopg2Error) d
               (failed_unrecorded_events e (remove_file f r) m)"
    by (intro applied_run.failed_unrecorded)
       (simp_all add: script_text_remove script_sql_remove)
  with failed_unrecorded.prems show ?case
    by (simp add: failed_unrecorded_events_def script_sql_remove)
qed

lemma callback_sql_remove [simp]: "callback_sql e (remove_file f r) c = callback_sql e r c"
  by (simp add: callback_sql_def split: option.splits)

lemma callback_run_remove:
  "callback_run e r dry fs d res d' es \<Longrightarrow> callback_run e (remove_file f r) dry fs d res d' es"
proof (induction rule: callback_run.induct)
  case (executed f' d c fs res d' es)
  then show ?case using callback_run.executed [of dry e f' "remove_file f r" d c fs res d' es]
    by simp
next
  case (script_failed f' d fs res d' es)
  then show ?case using callback_run.script_failed [of dry e f' "remove_file f r" d fs res d' es]
    by simp
qed (auto intro: callback_run.intros)

lemma callback_phase_remove:
  "callback_phase e r called dry d res d' es
   \<Longrightarrow> callback_phase e (remove_file f r) called dry d res d' es"
  by (auto simp: callback_phase_def callback_files_def dest: callback_run_remove split: if_splits)

lemma filter_no_mismatch:
  "\<forall>ev \<in> set es. is_apply_event ev \<or> is_callback_event ev
   \<Longrightarrow> filter (\<lambda>ev. ev \<noteq> ChecksumMismatch f) es = es"
  by (rule filter_True) auto

lemma prepared_events_remove [simp]:
  "prepared_events (remove_file f r) dry w = prepared_events r dry w"
  by (simp add: prepared_events_def)

lemma filter_prepared_events [simp]:
  "filter (\<lambda>ev. ev \<noteq> ChecksumMismatch f) (prepared_events r dry w) = prepared_events r dry w"
  by (simp add: prepared_events_def)

lemma pending_of_files:
  "m \<in> set (pending_of e r rows) \<Longrightarrow>
     filepath m = filename m \<and> filename m \<notin> set (map script rows)"
  using all_migrations_files [of m e r] by (simp add: pending_of_def)

lemma recorded_not_pending:
  assumes "f \<in> set (map script rows)"
  shows "f \<notin> set (map filename (pending_of e r rows))"
proof
  assume "f \<in> set (map filename (pending_of e r rows))"
  then obtain p where "p \<in> set (pending_of e r rows)" "filename p = f" by auto
  with pending_of_files [of p e r rows] assms show False by simp
qed

lemma run_without_recorded_file:
  assumes "migrate e r dry w = (res, w')"
    and "server w = Some d" and "ledger d = Some rows"
    and "f \<in> set (map script rows)"
  shows "\<exists>w''. migrate e (remove_file f r) dry w = (res, w'')
               \<and> server w'' = server w' \<and> conn w'' = conn w'
               \<and> new_events w w''
                   = filter (\<lambda>ev. ev \<noteq> ChecksumMismatch f) (new_events w w')"
proof -
  let ?r = "remove_file f r" and ?p = "pending_of e r rows"
  let ?keep = "filter (\<lambda>ev. ev \<noteq> ChecksumMismatch f)"
  let ?es0 = "prepared_events r dry w @ select_events e r rows"
  have pd: "ledger (prepared_db e dry w) = Some rows"
    using prepared_db_existing [OF assms(2,3)] assms(3) by simp
  from applied_run_total [of e r dry ?p 0 "prepared_db e dry w"] obtain resL d2 es where
    run: "applied_run e r dry ?p 0 (prepared_db e dry w) resL d2 es"
    by blast
  from callback_phase [of "settle w d2 []" d2 "?p \<noteq> [] \<or> server w \<noteq> None" e r dry]
  obtain resC d' cb where
    cb: "callback_phase e r (?p \<noteq> [] \<or> server w \<noteq> None) dry d2 resC d' cb"
    by auto
  have p: "pending_of e ?r rows = ?p" using assms(4) by (rule pending_of_remove)
  have "\<forall>m \<in> set ?p. filepath m \<noteq> f"
    using pending_of_files [of _ e r rows] assms(4) by auto
  with run have run': "applied_run e ?r dry ?p 0 (prepared_db e dry w) resL d2 es"
    by (rule applied_run_remove)
  from cb have cb': "callback_phase e ?r (?p \<noteq> [] \<or> server w \<noteq> None) dry d2 resC d' cb"
    by (rule callback_phase_remove)
  have m: "(res, w') = outcome w ?es0 resL d2 es resC d' cb"
    using migrate_outcome [OF pd run cb] assms(1) by simp
  have m': "migrate e ?r dry w = outcome w (?keep ?es0) resL d2 es resC d' cb"
    using migrate_outcome [of e dry w rows ?r resL d2 es resC d' cb] pd run' cb' p
    by (simp add: select_events_remove)
  have es: "?keep es = es"
    using applied_run_events [OF run] by (intro filter_no_mismatch) auto
  have cbs: "?keep cb = cb"
    using callback_phase_events [OF cb] by (intro filter_no_mismatch) auto
  show ?thesis
  proof (cases resL)
    case (Inl err)
    with m m' es show ?thesis by (simp add: outcome_def)
  next
    case (Inr a)
    obtain ok k where a: "a = (ok, k)" by (cases a)
    show ?thesis
    proof (cases ok)
      case False
      with m m' es Inr a show ?thesis by (simp add: outcome_def)
    next
      case True
      with m m' es cbs Inr a show ?thesis by (cases resC) (simp_all add: outcome_def)
    qed
  qed
qed

lemma run_stops_for_a_cause:
  assumes "migrate e r dry w = (res, w')"
    and "server w = Some d" and "ledger d = Some rows"
  shows "res = Inr 0
         \<or> (res = Inr 1
             \<and> (\<exists>m \<in> set (pending_of e r rows).
                   Execute (MigrationScript (filename m)) (script_sql e r m) False
                     \<in> set (new_events w w')))
         \<or> (res = Inl Psycopg2Error
             \<and> (\<exists>m \<in> set (pending_of e r rows).
                   Insert (migration_row r m False) False \<in> set (new_events w w')))
         \<or> (res = Inl UnicodeDecodeError
             \<and> ((\<exists>m \<in> set (pending_of e r rows). script_text e r m = None)
                 \<or> (\<exists>c \<in> set (callback_files r). decode e (snd c) = None)))"
proof -
  have pd: "ledger (prepared_db e dry w) = Some rows"
    using prepared_db_existing [OF assms(2,3)] assms(3) by simp
  from assms(1) show ?thesis
  proof (cases rule: migrate_cases)
    case no_table
    with pd show ?thesis by simp
  next
    case (halted rows1 k d' es)
    with pd have [simp]: "rows1 = rows" by simp
    from applied_run_halted [OF halted(2)] halted(3,4) show ?thesis by auto
  next
    case (raised rows1 err d' es)
    with pd have [simp]: "rows1 = rows" by simp
    from applied_run_raised [OF raised(2)] raised(3,4) show ?thesis by auto
  next
    case (completed rows1 d2 es d' cb)
    then show ?thesis by simp
  next
    case (callback_raised rows1 d2 es err d' cb)
    with pd have [simp]: "rows1 = rows" by simp
    from callback_phase_raised [OF callback_raised(3)] callback_raised(4) show ?thesis by auto
  qed
qed

section \<open>Evaluating the example\<close>

lemmas runner_defs =
  migrate_def bind_result_def ensure_database_exists_def connect_def close_def
  initialize_schema_table_def commit_def rollback_def log_def get_pending_migrations_def
  get_applied_migrations_def applied_dict_def glob_sql_def from_file_def read_text_def
  endswith_def stem_def
  rfind_def replace_char_def apply_migration_def execute_script_def insert_row_def
  storable_def stored_def fits_def truncate_to_def continuation_byte_def migration_row_def run_after_migrate_scripts_def
  run_script_def render_sql_template_def replace_var_def placeholder_def ident_start_def
  ident_char_def new_events_def Let_def

lemma example_first_run:
  "migrate example_env example_runner False no_database = (Inr 1, after_first_run)"
  by (simp add: runner_defs example_md5_def example_decode_def example_run_def example_partial_def example_env_def example_runner_def no_database_def
      after_first_run_def first_run_trace_def halted_db_def row_a_def row_b_def)

lemma example_second_run:
  "migrate example_env example_runner False after_first_run
   = (Inr 0,
      \<lparr>server = Some \<lparr>ledger = Some [row_a, row_b False, row_c],
                      content = [''CREATE TABLE a (x int)'', ''CREATE TABLE c (x int)'',
                                 ''GRANT SELECT ON a TO reporting'']\<rparr>,
       conn = None,
       trace = first_run_trace
               @ [Connect, CreateTable, Commit, Select True,
                  Execute (MigrationScript ''v3_c.sql'') ''CREATE TABLE c (x int)'' True,
                  Commit, Insert row_c True, Commit,
                  Execute (CallbackScript ''broken.sql'') ''SELEC 1'' False, Rollback,
                  ScriptFailed ''broken.sql'',
                  Execute (CallbackScript ''grants.sql'') ''GRANT SELECT ON a TO reporting''
                    True,
                  Commit, Close]\<rparr>)"
  by (simp add: runner_defs example_md5_def example_decode_def example_run_def example_partial_def example_env_def example_runner_def after_first_run_def
      first_run_trace_def halted_db_def row_a_def row_b_def row_c_def)

section \<open>The claims\<close>

text \<open>
  Claim C1, as amended. With a connection whose transaction sees the ledger table,
  \<open>get_pending_migrations\<close> returns, and the pending migrations are the \<open>.sql\<close> files of
  the directory whose name is no \<open>script\<close> of the ledger, whatever the recorded checksum,
  in strictly ascending byte-wise order of the file names.
\<close>

theorem pending_is_unrecorded_files_in_order:
  assumes "conn w = Some d" and "ledger d = Some rows"
    and "distinct (map fst (migrations_dir r))"
  shows "\<exists>pending w'.
           get_pending_migrations e r w = (Inr pending, w')
           \<and> set (map filename pending)
               = {n \<in> set (map fst (migrations_dir r)). endswith n ''.sql''}
                 - set (map script rows)
           \<and> sorted_wrt (<) (map filename pending)"
proof -
  obtain ms where ms: "from_files e (migrations_dir r) (glob_sql (migrations_dir r)) = Inr ms"
    and names: "map filename ms = glob_sql (migrations_dir r)"
    using all_migrations_Inr by blast
  let ?p = "filter (\<lambda>m. filename m \<notin> set (map script rows)) ms"
  have eq: "map filename ?p = filter (\<lambda>n. n \<notin> set (map script rows)) (map filename ms)"
    by (simp add: filter_map comp_def)
  have "set (map filename ?p)
          = {n \<in> set (map fst (migrations_dir r)). endswith n ''.sql''} - set (map script rows)"
    unfolding eq names using set_glob_sql [of "migrations_dir r"] by auto
  moreover have "sorted_wrt (<) (glob_sql (migrations_dir r))"
    using sorted_glob_sql distinct_glob_sql [OF assms(3)] by (simp add: strict_sorted_iff)
  then have "sorted_wrt (<) (map filename ?p)"
    unfolding eq names by (rule sorted_wrt_filter)
  ultimately show ?thesis
    using get_pending_migrations_eq [OF assms(1,2) ms] by blast
qed

theorem pending_is_unrecorded_files_in_order_witness:
  "\<exists>pending w'.
     get_pending_migrations example_env example_runner reconnected = (Inr pending, w')
     \<and> set (map filename pending) = {''v3_c.sql''}
     \<and> sorted_wrt (<) (map filename pending)"
proof -
  have c: "conn reconnected = Some halted_db" by (simp add: reconnected_def)
  have l: "ledger halted_db = Some [row_a, row_b False]" by (simp add: halted_db_def)
  have d: "distinct (map fst (migrations_dir example_runner))"
    by (simp add: example_runner_def)
  have g: "glob_sql (migrations_dir example_runner) = [''v1_a.sql'', ''v2_b.sql'', ''v3_c.sql'']"
    by (simp add: glob_sql_def endswith_def example_runner_def)
  have "{n \<in> set (map fst (migrations_dir example_runner)). endswith n ''.sql''}
          = set (glob_sql (migrations_dir example_runner))"
    by (simp only: set_glob_sql)
  then have "{n \<in> set (map fst (migrations_dir example_runner)). endswith n ''.sql''}
          - set (map script [row_a, row_b False]) = {''v3_c.sql''}"
    unfolding g by (simp add: row_a_def row_b_def)
  with pending_is_unrecorded_files_in_order [OF c l d, of example_env] show ?thesis by simp
qed

text \<open>
  Claim C1 as it is worded fails: a file that was edited after it was applied has a ledger
  entry whose checksum does not match, so the worded difference keeps it, and the code
  leaves it out (here \<open>v1_a.sql\<close>, recorded with the digest of its first content).
\<close>

theorem pending_ignores_checksum_counterexample:
  "get_pending_migrations example_env edited_runner complete_connected
   = (Inr [], complete_connected\<lparr>trace := [Select True, ChecksumMismatch ''v1_a.sql'']\<rparr>)
   \<and> pending_by_checksum example_env (migrations_dir edited_runner) [row_a, row_b True, row_c]
     = [''v1_a.sql'']"
  by (simp add: runner_defs example_md5_def example_env_def example_runner_def edited_runner_def
      complete_connected_def complete_db_def row_a_def row_b_def row_c_def pending_by_checksum_def)

text \<open>
  Claim C2 fails on the code: in a dry run with no target database, \<open>migrate\<close> still
  calls \<open>ensure_database_exists\<close>, which creates the database; the run then ends with the
  error of the \<open>SELECT\<close> on the ledger table that the dry run did not create.
\<close>

theorem dry_run_creates_database:
  "migrate example_env example_runner True no_database
   = (Inl Psycopg2Error,
      \<lparr>server = Some \<lparr>ledger = None, content = []\<rparr>,
       conn = Some \<lparr>ledger = None, content = []\<rparr>,
       trace = [CreateDatabase ''app'', Connect, Select False]\<rparr>)"
  by (simp add: runner_defs example_md5_def example_decode_def example_run_def example_partial_def example_env_def example_runner_def no_database_def)

text \<open>
  Claim C3. In a run of \<open>migrate\<close>, when the execution of the migration \<open>b\<close> fails, no
  migration \<open>c\<close> that is ordered after \<open>b\<close> is executed in that run.
\<close>

theorem migrate_halts_at_first_failure:
  assumes "migrate e r dry_run w = (res, w')"
    and "Execute (MigrationScript b) sql False \<in> set (new_events w w')"
    and "b < c"
  shows "Execute (MigrationScript c) sql' ok \<notin> set (new_events w w')"
  using assms(1)
proof (cases rule: migrate_executions)
  case nothing
  with assms(2) show ?thesis using executions_mem [of b False "new_events w w'"] by auto
next
  case (loop rows d resL d' es)
  from assms(2) have "(b, False) \<in> set (executions es)"
    using executions_mem [of b False "new_events w w'"] loop(2) by auto
  then obtain xs ys where split: "executions es = xs @ (b, False) # ys"
    by (auto simp: in_set_conv_decomp)
  with applied_run_failure_last [OF loop(1)] have ys: "ys = []" by blast
  from applied_run_prefix [OF loop(1)] obtain zs where
    "map filename (pending_of e r rows) = map fst (executions es) @ zs"
    by (auto simp: prefix_def)
  with sorted_pending_of [of e r rows] have "sorted (map fst (executions es))"
    by (simp add: sorted_append)
  with split ys have le: "\<forall>x \<in> set xs. fst x \<le> b" by (auto simp: sorted_append)
  show ?thesis
  proof
    assume "Execute (MigrationScript c) sql' ok \<in> set (new_events w w')"
    then have "(c, ok) \<in> set (executions es)"
      using executions_mem [of c ok "new_events w w'"] loop(2) by auto
    with split ys le have "c \<le> b" by auto
    with assms(3) show False by simp
  qed
qed

theorem migrate_halts_at_first_failure_witness:
  "migrate example_env example_runner False no_database = (Inr 1, after_first_run)
   \<and> Execute (MigrationScript ''v2_b.sql'') ''SELEC 1'' False
       \<in> set (new_events no_database after_first_run)
   \<and> ''v2_b.sql'' < ''v3_c.sql''
   \<and> (\<forall>sql ok. Execute (MigrationScript ''v3_c.sql'') sql ok
         \<notin> set (new_events no_database after_first_run))"
proof -
  have f: "Execute (MigrationScript ''v2_b.sql'') ''SELEC 1'' False
             \<in> set (new_events no_database after_first_run)"
    by (simp add: new_events_def no_database_def after_first_run_def first_run_trace_def)
  have lt: "''v2_b.sql'' < ''v3_c.sql''" by simp
  from migrate_halts_at_first_failure [OF example_first_run f lt] example_first_run f lt
  show ?thesis by simp
qed

text \<open>
  Claim C4 fails on the code for a migration whose description is longer than the
  \<open>VARCHAR(200)\<close> column: the script is executed and committed, both insertions of the
  ledger row are rejected, the second in the handler, and the run ends with that error
  and no ledger row.
\<close>

theorem long_description_is_not_recorded:
  "migrate example_env long_name_runner False no_database
   = (Inl Psycopg2Error,
      \<lparr>server = Some \<lparr>ledger = Some [], content = [''CREATE TABLE a (x int)'']\<rparr>,
       conn = Some \<lparr>ledger = Some [], content = [''CREATE TABLE a (x int)'']\<rparr>,
       trace = [CreateDatabase ''app'', Connect, CreateTable, Commit, Select True,
                Execute (MigrationScript long_name) ''CREATE TABLE a (x int)'' True, Commit,
                Insert (long_name_row True) False, Rollback,
                Insert (long_name_row False) False]\<rparr>)"
  by code_simp

lemma drift_in_migrate:
  assumes "migrate e r dry_run w = (res, w')"
    and "server w = Some d" and "ledger d = Some rows"
    and "f \<in> set (map script rows)"
    and "endswith f ''.sql''" and "map_of (migrations_dir r) f = Some body"
    and "\<forall>row \<in> set rows. script row = f \<longrightarrow> row_checksum row \<noteq> md5 e body"
  shows "ChecksumMismatch f \<in> set (select_events e r rows)
         \<and> ChecksumMismatch f \<in> set (new_events w w')
         \<and> (\<forall>sql ok. Execute (MigrationScript f) sql ok \<notin> set (new_events w w'))
         \<and> (\<exists>d' rows'. server w' = Some d' \<and> ledger d' = Some rows'
               \<and> filter (\<lambda>row. script row = f) rows' = filter (\<lambda>row. script row = f) rows)"
proof -
  have pd: "prepared_db e dry_run w = d" using assms(2,3) by (rule prepared_db_existing)
  from all_migrations_mem [OF assms(5,6), of e] obtain m where
    m: "m \<in> set (all_migrations e r)" "filename m = f" "checksum m = md5 e body"
    by blast
  from assms(4) obtain row where row: "applied_dict rows f = Some row"
    using applied_dict_None [of rows f] by auto
  with applied_dict_Some [OF row] assms(7) m have "drifted (applied_dict rows) m"
    by (simp add: drifted_def)
  with m have warn: "ChecksumMismatch f \<in> set (select_events e r rows)"
    by (force simp: select_events_def)
  have not_pending: "f \<notin> set (map filename (pending_of e r rows))"
    using assms(4) by (rule recorded_not_pending)
  have kept: "filter (\<lambda>row. script row = f) (rows @ new) = filter (\<lambda>row. script row = f) rows"
    if "\<forall>x \<in> set new. script x \<notin> set (map script rows)" for new
    using that assms(4) by (auto simp: filter_empty_conv)
  have loop: "(\<exists>new. ledger d2 = Some (rows @ new)
                  \<and> (\<forall>x \<in> set new. script x \<notin> set (map script rows)))
              \<and> (\<forall>sql ok. Execute (MigrationScript f) sql ok \<notin> set es)"
    if "applied_run e r dry_run (pending_of e r rows) 0 d resL d2 es" for resL d2 es
    using applied_run_ledger [OF that assms(3)] executed_is_pending [OF that] not_pending
    by auto
  have phase: "ledger d3 = ledger d2 \<and> (\<forall>sql ok. Execute (MigrationScript f) sql ok \<notin> set cb)"
    if "callback_phase e r called dry_run d2 resC d3 cb" for called d2 resC d3 cb
    using callback_phase_ledger [OF that] callback_phase_events [OF that] by fastforce
  from assms(1) show ?thesis
  proof (cases rule: migrate_cases)
    case no_table
    with pd assms(3) show ?thesis by simp
  next
    case (halted rows1 k d' es)
    with pd assms(3) have [simp]: "rows1 = rows" by simp
    from halted(2) have "applied_run e r dry_run (pending_of e r rows) 0 d (Inr (False, k)) d' es"
      using pd by simp
    from loop [OF this] show ?thesis
      using halted warn kept by (auto simp: prepared_events_def select_events_def)
  next
    case (raised rows1 err d' es)
    with pd assms(3) have [simp]: "rows1 = rows" by simp
    from raised(2) have "applied_run e r dry_run (pending_of e r rows) 0 d (Inl err) d' es"
      using pd by simp
    from loop [OF this] show ?thesis
      using raised warn kept by (auto simp: prepared_events_def select_events_def)
  next
    case (completed rows1 d2 es d' cb)
    with pd assms(3) have [simp]: "rows1 = rows" by simp
    from completed(2) have
      "applied_run e r dry_run (pending_of e r rows) 0 d
         (Inr (True, length (pending_of e r rows))) d2 es"
      using pd by simp
    from loop [OF this] phase [OF completed(3)] show ?thesis
      using completed warn kept by (auto simp: prepared_events_def select_events_def)
  next
    case (callback_raised rows1 d2 es err d' cb)
    with pd assms(3) have [simp]: "rows1 = rows" by simp
    from callback_raised(2) have
      "applied_run e r dry_run (pending_of e r rows) 0 d
         (Inr (True, length (pending_of e r rows))) d2 es"
      using pd by simp
    from loop [OF this] phase [OF callback_raised(3)] show ?thesis
      using callback_raised warn kept by (auto simp: prepared_events_def select_events_def)
  qed
qed

lemma example_drift_run:
  "migrate example_env edited_runner False complete_database
   = (Inr 0,
      \<lparr>server = Some (complete_db\<lparr>content := content complete_db
                                     @ [''GRANT SELECT ON a TO reporting'']\<rparr>),
       conn = None,
       trace = [Connect, CreateTable, Commit, Select True, ChecksumMismatch ''v1_a.sql'',
                Execute (CallbackScript ''broken.sql'') ''SELEC 1'' False, Rollback,
                ScriptFailed ''broken.sql'',
                Execute (CallbackScript ''grants.sql'') ''GRANT SELECT ON a TO reporting''
                  True,
                Commit, Close]\<rparr>)"
  by (simp add: runner_defs example_md5_def example_decode_def example_run_def
      example_partial_def example_env_def example_runner_def edited_runner_def
      complete_database_def complete_db_def row_a_def row_b_def row_c_def)

text \<open>
  Claim C5. Let the ledger have an entry for the file \<open>f\<close> and none with the checksum of
  the file's present content. Then a run of \<open>migrate\<close> prints the checksum warning for
  \<open>f\<close>; the warning is not fatal: \<open>get_pending_migrations\<close> prints it and returns the
  pending list, in which \<open>f\<close> is not, and the run goes on as it would without the file,
  to the same result, the same database and the same statements; the script of \<open>f\<close> is
  not executed; and the ledger entries of \<open>f\<close> are left as they were. The run returns 0
  unless something other than \<open>f\<close> stops it: a pending migration whose script fails or
  whose ledger row is rejected, or a pending migration or callback script whose file
  cannot be read.
\<close>

theorem drift_is_warned_and_skipped:
  assumes "migrate e r dry_run w = (res, w')"
    and "server w = Some d" and "ledger d = Some rows"
    and "f \<in> set (map script rows)"
    and "endswith f ''.sql''" and "map_of (migrations_dir r) f = Some body"
    and "\<forall>row \<in> set rows. script row = f \<longrightarrow> row_checksum row \<noteq> md5 e body"
  shows "ChecksumMismatch f \<in> set (new_events w w')
         \<and> (\<forall>w0. conn w0 = Some d \<longrightarrow>
               (\<exists>pending w1.
                   get_pending_migrations e r w0 = (Inr pending, w1)
                   \<and> ChecksumMismatch f \<in> set (new_events w0 w1)
                   \<and> f \<notin> set (map filename pending)))
         \<and> (\<exists>w''. migrate e (remove_file f r) dry_run w = (res, w'')
               \<and> server w'' = server w' \<and> conn w'' = conn w'
               \<and> new_events w w''
                   = filter (\<lambda>ev. ev \<noteq> ChecksumMismatch f) (new_events w w'))
         \<and> (res = Inr 0
             \<or> (res = Inr 1
                 \<and> (\<exists>g sql. g \<noteq> f
                       \<and> Execute (MigrationScript g) sql False \<in> set (new_events w w')))
             \<or> (res = Inl Psycopg2Error
                 \<and> (\<exists>row. script row \<noteq> f \<and> Insert row False \<in> set (new_events w w')))
             \<or> (res = Inl UnicodeDecodeError
                 \<and> ((\<exists>m \<in> set (all_migrations e r). filename m \<noteq> f \<and> script_text e r m = None)
                     \<or> (\<exists>c \<in> set (callback_files r). decode e (snd c) = None))))
         \<and> (\<forall>sql ok. Execute (MigrationScript f) sql ok \<notin> set (new_events w w'))
         \<and> (\<exists>d' rows'. server w' = Some d' \<and> ledger d' = Some rows'
               \<and> filter (\<lambda>row. script row = f) rows' = filter (\<lambda>row. script row = f) rows)"
proof -
  note drift = drift_in_migrate [OF assms]
  have pending: "\<exists>pending w1.
      get_pending_migrations e r w0 = (Inr pending, w1)
      \<and> ChecksumMismatch f \<in> set (new_events w0 w1)
      \<and> f \<notin> set (map filename pending)"
    if "conn w0 = Some d" for w0
  proof -
    have "f \<notin> set (map filename (pending_of e r rows))"
      using assms(4) by (rule recorded_not_pending)
    moreover have "get_pending_migrations e r w0
        = (Inr (pending_of e r rows), w0\<lparr>trace := trace w0 @ select_events e r rows\<rparr>)"
      using get_pending_migrations_eq [OF that assms(3) all_migrations_eq]
      by (simp add: pending_of_def select_events_def)
    ultimately show ?thesis using drift by simp
  qed
  have other: "filename m \<noteq> f \<and> script (migration_row r m False) = filename m"
    if "m \<in> set (pending_of e r rows)" for m
    using pending_of_files [OF that] assms(4) by (auto simp: migration_row_def)
  have pending_sub: "m \<in> set (all_migrations e r)" if "m \<in> set (pending_of e r rows)" for m
    using that by (simp add: pending_of_def)
  have cause: "res = Inr 0
      \<or> (res = Inr 1
          \<and> (\<exists>g sql. g \<noteq> f
                \<and> Execute (MigrationScript g) sql False \<in> set (new_events w w')))
      \<or> (res = Inl Psycopg2Error
          \<and> (\<exists>row. script row \<noteq> f \<and> Insert row False \<in> set (new_events w w')))
      \<or> (res = Inl UnicodeDecodeError
          \<and> ((\<exists>m \<in> set (all_migrations e r). filename m \<noteq> f \<and> script_text e r m = None)
              \<or> (\<exists>c \<in> set (callback_files r). decode e (snd c) = None)))"
    using run_stops_for_a_cause [OF assms(1-3)]
  proof (elim disjE conjE bexE)
    fix m
    assume "res = Inr 1" and "m \<in> set (pending_of e r rows)"
      and "Execute (MigrationScript (filename m)) (script_sql e r m) False
             \<in> set (new_events w w')"
    with other [of m] show ?thesis by blast
  next
    fix m
    assume "res = Inl Psycopg2Error" and m: "m \<in> set (pending_of e r rows)"
      and i: "Insert (migration_row r m False) False \<in> set (new_events w w')"
    from other [OF m] have "script (migration_row r m False) \<noteq> f" by simp
    with \<open>res = Inl Psycopg2Error\<close> i show ?thesis by blast
  next
    fix m
    assume "res = Inl UnicodeDecodeError" and m: "m \<in> set (pending_of e r rows)"
      and "script_text e r m = None"
    with other [OF m] pending_sub [OF m] show ?thesis by blast
  qed auto
  from drift pending run_without_recorded_file [OF assms(1-4)] cause show ?thesis
    by (intro conjI allI impI) simp_all
qed

theorem drift_is_warned_and_skipped_witness:
  "fst (migrate example_env edited_runner False complete_database) = Inr 0
   \<and> ChecksumMismatch ''v1_a.sql''
       \<in> set (new_events complete_database
                (snd (migrate example_env edited_runner False complete_database)))
   \<and> (\<exists>pending w1.
         get_pending_migrations example_env edited_runner complete_connected = (Inr pending, w1)
         \<and> ChecksumMismatch ''v1_a.sql'' \<in> set (new_events complete_connected w1)
         \<and> ''v1_a.sql'' \<notin> set (map filename pending))
   \<and> (\<exists>w''. migrate example_env (remove_file ''v1_a.sql'' edited_runner) False
               complete_database = (Inr 0, w'')
         \<and> new_events complete_database w''
             = filter (\<lambda>ev. ev \<noteq> ChecksumMismatch ''v1_a.sql'')
                 (new_events complete_database
                    (snd (migrate example_env edited_runner False complete_database))))
   \<and> (\<forall>sql ok. Execute (MigrationScript ''v1_a.sql'') sql ok
        \<notin> set (new_events complete_database
                 (snd (migrate example_env edited_runner False complete_database))))
   \<and> (\<exists>d' rows'. server (snd (migrate example_env edited_runner False complete_database))
                    = Some d'
          \<and> ledger d' = Some rows'
          \<and> filter (\<lambda>row. script row = ''v1_a.sql'') rows' = [row_a])"
proof -
  let ?m = "migrate example_env edited_runner False complete_database"
  have res: "fst ?m = Inr 0" by (simp add: example_drift_run)
  then have run: "?m = (Inr 0, snd ?m)" by (metis prod.collapse)
  have s: "server complete_database = Some complete_db" by (simp add: complete_database_def)
  have l: "ledger complete_db = Some [row_a, row_b True, row_c]" by (simp add: complete_db_def)
  have f: "''v1_a.sql'' \<in> set (map script [row_a, row_b True, row_c])"
    by (simp add: row_a_def)
  have sql: "endswith ''v1_a.sql'' ''.sql''" by (simp add: endswith_def)
  have b: "map_of (migrations_dir edited_runner) ''v1_a.sql'' = Some ''CREATE TABLE a (x bigint)''"
    by (simp add: edited_runner_def example_runner_def)
  have c: "\<forall>row \<in> set [row_a, row_b True, row_c].
             script row = ''v1_a.sql''
             \<longrightarrow> row_checksum row \<noteq> md5 example_env ''CREATE TABLE a (x bigint)''"
    by (simp add: example_md5_def example_env_def row_a_def row_b_def row_c_def)
  have keep: "filter (\<lambda>row. script row = ''v1_a.sql'') [row_a, row_b True, row_c] = [row_a]"
    by (simp add: row_a_def row_b_def row_c_def)
  have open_conn: "conn complete_connected = Some complete_db"
    by (simp add: complete_connected_def)
  note inst = drift_is_warned_and_skipped [OF run s l f sql b c]
  from inst have 1: "ChecksumMismatch ''v1_a.sql'' \<in> set (new_events complete_database (snd ?m))"
    by (rule conjunct1)
  from inst open_conn have 2: "\<exists>pending w1.
         get_pending_migrations example_env edited_runner complete_connected = (Inr pending, w1)
         \<and> ChecksumMismatch ''v1_a.sql'' \<in> set (new_events complete_connected w1)
         \<and> ''v1_a.sql'' \<notin> set (map filename pending)"
    by blast
  from inst have 3: "\<exists>w''. migrate example_env (remove_file ''v1_a.sql'' edited_runner) False
               complete_database = (Inr 0, w'')
         \<and> new_events complete_database w''
             = filter (\<lambda>ev. ev \<noteq> ChecksumMismatch ''v1_a.sql'')
                 (new_events complete_database (snd ?m))"
    by blast
  from inst have 4: "\<forall>sql ok. Execute (MigrationScript ''v1_a.sql'') sql ok
        \<notin> set (new_events complete_database (snd ?m))"
    by blast
  from inst keep have 5: "\<exists>d' rows'. server (snd ?m) = Some d'
          \<and> ledger d' = Some rows'
          \<and> filter (\<lambda>row. script row = ''v1_a.sql'') rows' = [row_a]"
    by auto
  from res 1 2 3 4 5 show ?thesis by (intro conjI)
qed

text \<open>
  Claim C6, as amended. When a run of \<open>migrate\<close> (not a dry run) returns 0, a second run
  over the same files executes no migration, inserts no ledger row and leaves the ledger
  as the first run left it. It returns 0, unless it is the first to call the callback
  scripts and one of them cannot be read.
\<close>

theorem second_run_applies_nothing:
  assumes "migrate e r False w = (Inr 0, w1)"
    and "migrate e r False w1 = (res2, w2)"
    and "valid_directory (migrations_dir r)"
  shows "(res2 = Inr 0
          \<or> res2 = Inl UnicodeDecodeError
            \<and> (\<exists>c \<in> set (callback_files r). decode e (snd c) = None))
         \<and> (\<forall>n sql ok. Execute (MigrationScript n) sql ok \<notin> set (new_events w1 w2))
         \<and> (\<forall>row ok. Insert row ok \<notin> set (new_events w1 w2))
         \<and> (\<exists>d1 d2. server w1 = Some d1 \<and> server w2 = Some d2 \<and> ledger d2 = ledger d1)"
proof -
  from successful_run_records_all [OF assms(1,3)] obtain d1 rows1 where
    w1: "server w1 = Some d1" "ledger d1 = Some rows1" and none: "pending_of e r rows1 = []"
    by blast
  have pd: "prepared_db e False w1 = d1" using w1 by (rule prepared_db_existing)
  have phase: "(\<forall>n sql ok. Execute (MigrationScript n) sql ok
                    \<notin> set (prepared_events r False w1 @ select_events e r rows1 @ cb))
               \<and> (\<forall>row ok. Insert row ok
                      \<notin> set (prepared_events r False w1 @ select_events e r rows1 @ cb))
               \<and> ledger d' = ledger d1"
    if "callback_phase e r called False d1 resC d' cb" for called resC d' cb
  proof -
    have "executions (prepared_events r False w1 @ select_events e r rows1 @ cb) = []"
      using that by (simp add: executions_callback_phase)
    then have "\<forall>n sql ok. Execute (MigrationScript n) sql ok
                 \<notin> set (prepared_events r False w1 @ select_events e r rows1 @ cb)"
      using executions_mem [of _ _ "prepared_events r False w1 @ select_events e r rows1 @ cb"]
      by simp
    then show ?thesis
      using no_insert_callback_phase [OF that] callback_phase_ledger [OF that] by simp
  qed
  from assms(2) show ?thesis
  proof (cases rule: migrate_cases)
    case no_table
    then show ?thesis by simp
  next
    case (halted rows k d' es)
    with pd w1 none show ?thesis by (auto elim: applied_run_NilE)
  next
    case (raised rows err d' es)
    with pd w1 none show ?thesis by (auto elim: applied_run_NilE)
  next
    case (completed rows d2 es d' cb)
    with pd w1 have [simp]: "rows = rows1" by simp
    from completed(2) pd none have "d2 = d1" "es = []" by (auto elim: applied_run_NilE)
    with completed(3) have "callback_phase e r (server w1 \<noteq> None) False d1 (Inr ()) d' cb"
      using none by simp
    from phase [OF this] completed(4,5) \<open>es = []\<close> w1 show ?thesis by simp
  next
    case (callback_raised rows d2 es err d' cb)
    with pd w1 have [simp]: "rows = rows1" by simp
    from callback_raised(2) pd none have "d2 = d1" "es = []" by (auto elim: applied_run_NilE)
    with callback_raised(3) have
      c: "callback_phase e r (server w1 \<noteq> None) False d1 (Inl err) d' cb"
      using none by simp
    from phase [OF c] callback_phase_raised [OF c] callback_raised(4,5) \<open>es = []\<close> w1
    show ?thesis by simp
  qed
qed

theorem second_run_applies_nothing_witness:
  "fst (migrate example_env repaired_runner False no_database) = Inr 0
   \<and> fst (migrate example_env repaired_runner False
            (snd (migrate example_env repaired_runner False no_database))) = Inr 0
   \<and> (\<forall>row ok. Insert row ok
        \<notin> set (new_events (snd (migrate example_env repaired_runner False no_database))
                 (snd (migrate example_env repaired_runner False
                         (snd (migrate example_env repaired_runner False no_database))))))"
proof -
  let ?m1 = "migrate example_env repaired_runner False no_database"
  let ?m2 = "migrate example_env repaired_runner False (snd ?m1)"
  have ok: "fst ?m1 = Inr 0"
    by (simp add: runner_defs example_md5_def example_decode_def example_run_def
        example_partial_def example_env_def example_runner_def repaired_runner_def
        no_database_def)
  then have run1: "?m1 = (Inr 0, snd ?m1)" by (metis prod.collapse)
  have run2: "?m2 = (fst ?m2, snd ?m2)" by simp
  have v: "valid_directory (migrations_dir repaired_runner)"
    by (simp add: valid_directory_def repaired_runner_def example_runner_def)
  have files: "callback_files repaired_runner
               = [(''broken.sql'', ''SELEC 1''),
                  (''grants.sql'', ''GRANT SELECT ON a TO ${READER}'')]"
    by (simp add: callback_files_def repaired_runner_def example_runner_def endswith_def)
  have "\<forall>c \<in> set (callback_files repaired_runner). decode example_env (snd c) \<noteq> None"
    unfolding files by (simp add: example_env_def example_decode_def)
  with second_run_applies_nothing [OF run1 run2 v] ok show ?thesis by simp
qed

text \<open>
  Claim C6 as it is worded fails when the first run stopped at a failure: the failed
  migration is in the ledger, so the second run skips it and applies the next one.
\<close>

theorem second_run_applies_counterexample:
  "migrate example_env example_runner False no_database = (Inr 1, after_first_run)
   \<and> fst (migrate example_env example_runner False after_first_run) = Inr 0
   \<and> executions (new_events after_first_run
                   (snd (migrate example_env example_runner False after_first_run)))
     = [(''v3_c.sql'', True)]"
  by (simp add: example_first_run example_second_run)
     (simp add: new_events_def after_first_run_def)

lemma callbacks_apply_events: "\<forall>ev \<in> set es. is_apply_event ev \<Longrightarrow> callbacks es = []"
  by (induction es rule: callbacks.induct) auto

lemma callbacks_setup [simp]:
  "callbacks (prepared_events r dry w) = []" "callbacks (select_events e r rows) = []"
proof -
  have "callbacks (map (\<lambda>m. ChecksumMismatch (filename m)) ms) = []" for ms :: "migration list"
    by (induction ms) simp_all
  then show "callbacks (select_events e r rows) = []" by (simp add: select_events_def)
qed (simp add: prepared_events_def)

text \<open>
  Claim C8, as amended. A callback script that can be read and that the database
  rejects is rolled back, which leaves the connection and the database as they were
  before the script, the failure is reported, and \<open>run_script\<close> returns. Where every
  callback file can be read: called with a connection that has nothing uncommitted (as
  \<open>migrate\<close> calls it), \<open>run_after_migrate_scripts\<close> returns without an error, has
  executed every callback script in order whether or not an earlier one failed, has
  followed each failed script by a rollback and the notice of the failure, and leaves in
  the database the effects of the scripts that succeeded and nothing of the others; and a
  run of \<open>migrate\<close> in which a callback script failed has executed every callback script
  and returns 0.
\<close>

theorem callback_failure_is_isolated:
  "(conn w = Some d \<and> server w = Some d \<and> decode e (snd c) \<noteq> None
      \<and> run_sql e (callback_sql e r c) (content d) = None \<longrightarrow>
      run_script e r False c w
      = (Inr (),
         \<lparr>server = Some d, conn = Some d,
          trace = trace w @ [Execute (CallbackScript (fst c)) (callback_sql e r c) False,
                             Rollback, ScriptFailed (fst c)]\<rparr>))
   \<and> (conn w = Some d \<and> server w = Some d
        \<and> (\<forall>c \<in> set (callback_files r). decode e (snd c) \<noteq> None) \<longrightarrow>
      (\<exists>w'. run_after_migrate_scripts e r False w = (Inr (), w')
            \<and> map fst (callbacks (new_events w w')) = map fst (callback_files r)
            \<and> (\<forall>es1 n sql es2.
                  new_events w w' = es1 @ Execute (CallbackScript n) sql False # es2
                  \<longrightarrow> (\<exists>es3. es2 = Rollback # ScriptFailed n # es3))
            \<and> server w'
                = Some (d\<lparr>content := callback_content e r (callback_files r) (content d)\<rparr>)
            \<and> conn w' = server w'))
   \<and> (migrate e r dry_run w = (res, w2) \<and> ScriptFailed f \<in> set (new_events w w2)
        \<and> (\<forall>c \<in> set (callback_files r). decode e (snd c) \<noteq> None)
        \<longrightarrow> res = Inr 0
            \<and> map fst (callbacks (new_events w w2)) = map fst (callback_files r))"
proof (intro conjI impI)
  assume a: "conn w = Some d \<and> server w = Some d \<and> decode e (snd c) \<noteq> None
             \<and> run_sql e (callback_sql e r c) (content d) = None"
  then have "synced w d" by (simp add: synced_def)
  from run_script_synced [OF this, of e c r] a
  show "run_script e r False c w
        = (Inr (),
           \<lparr>server = Some d, conn = Some d,
            trace = trace w @ [Execute (CallbackScript (fst c)) (callback_sql e r c) False,
                               Rollback, ScriptFailed (fst c)]\<rparr>)"
    by (simp add: settle_def)
next
  assume a: "conn w = Some d \<and> server w = Some d
             \<and> (\<forall>c \<in> set (callback_files r). decode e (snd c) \<noteq> None)"
  then have s: "synced w d" by (simp add: synced_def)
  from callback_run_total [of e r False "callback_files r" d] obtain res0 d' es where
    cb0: "callback_run e r False (callback_files r) d res0 d' es"
    by blast
  with a have "res0 = Inr ()" using callback_run_readable by blast
  with cb0 have cb: "callback_run e r False (callback_files r) d (Inr ()) d' es" by simp
  from callback_run_run_scripts [OF cb s]
  have run: "run_after_migrate_scripts e r False w = (Inr (), settle w d' es)"
    by (simp add: run_after_migrate_scripts_eq)
  have "map fst (callbacks es) = map fst (callback_files r)"
    using cb by (rule callback_run_all) simp
  moreover have "\<forall>es1 n sql es2. es = es1 @ Execute (CallbackScript n) sql False # es2
                   \<longrightarrow> (\<exists>es3. es2 = Rollback # ScriptFailed n # es3)"
    using callback_run_handled [OF cb] by blast
  moreover have "d' = d\<lparr>content := callback_content e r (callback_files r) (content d)\<rparr>"
    using cb by (rule callback_run_content) simp
  ultimately show "\<exists>w'. run_after_migrate_scripts e r False w = (Inr (), w')
            \<and> map fst (callbacks (new_events w w')) = map fst (callback_files r)
            \<and> (\<forall>es1 n sql es2.
                  new_events w w' = es1 @ Execute (CallbackScript n) sql False # es2
                  \<longrightarrow> (\<exists>es3. es2 = Rollback # ScriptFailed n # es3))
            \<and> server w'
                = Some (d\<lparr>content := callback_content e r (callback_files r) (content d)\<rparr>)
            \<and> conn w' = server w'"
    using run by (intro exI [of _ "settle w d' es"]) simp
next
  assume a: "migrate e r dry_run w = (res, w2) \<and> ScriptFailed f \<in> set (new_events w w2)
             \<and> (\<forall>c \<in> set (callback_files r). decode e (snd c) \<noteq> None)"
  then have m: "migrate e r dry_run w = (res, w2)"
    and readable: "\<forall>c \<in> set (callback_files r). decode e (snd c) \<noteq> None"
    by simp_all
  have phase: "resC = Inr () \<and> map fst (callbacks cb) = map fst (callback_files r)"
    if "callback_phase e r called dry_run d2 resC d' cb" and "ScriptFailed f \<in> set cb"
    for called d2 resC d' cb
  proof -
    from that have run: "callback_run e r dry_run (callback_files r) d2 resC d' cb"
      by (auto simp: callback_phase_def split: if_splits)
    with that(2) have wet: "\<not> dry_run" using callback_run_dry by fastforce
    from run readable have "resC = Inr ()" by (rule callback_run_readable)
    with run wet show ?thesis using callback_run_all by blast
  qed
  from m have both: "res = Inr 0
               \<and> map fst (callbacks (new_events w w2)) = map fst (callback_files r)"
  proof (cases rule: migrate_cases)
    case no_table
    with a show ?thesis by simp
  next
    case (halted rows k d' es)
    with a show ?thesis by (auto dest: no_script_failed_applied_run)
  next
    case (raised rows err d' es)
    with a show ?thesis by (auto dest: no_script_failed_applied_run)
  next
    case (completed rows d2 es d' cb)
    with a have "ScriptFailed f \<in> set cb" by (auto dest: no_script_failed_applied_run)
    from phase [OF completed(3) this] completed(4,5) show ?thesis
      using callbacks_apply_events [OF applied_run_events [OF completed(2)]] by simp
  next
    case (callback_raised rows d2 es err d' cb)
    with a have "ScriptFailed f \<in> set cb" by (auto dest: no_script_failed_applied_run)
    from phase [OF callback_raised(3) this] show ?thesis by simp
  qed
  from both show "res = Inr 0" by simp
  from both show "map fst (callbacks (new_events w w2)) = map fst (callback_files r)" by simp
qed

theorem callback_failure_is_isolated_witness:
  "run_script example_env example_runner False (''broken.sql'', ''SELEC 1'') reconnected
   = (Inr (),
      reconnected\<lparr>trace := [Execute (CallbackScript ''broken.sql'') ''SELEC 1'' False,
                              Rollback, ScriptFailed ''broken.sql'']\<rparr>)
   \<and> (\<exists>w'. run_after_migrate_scripts example_env example_runner False reconnected = (Inr (), w')
         \<and> map fst (callbacks (new_events reconnected w')) = [''broken.sql'', ''grants.sql'']
         \<and> server w'
             = Some (halted_db\<lparr>content := [''CREATE TABLE a (x int)'',
                                            ''GRANT SELECT ON a TO reporting'']\<rparr>))
   \<and> ScriptFailed ''broken.sql''
       \<in> set (new_events reconnected
                (snd (migrate example_env example_runner False reconnected)))
   \<and> fst (migrate example_env example_runner False reconnected) = Inr 0"
proof -
  let ?m = "migrate example_env example_runner False reconnected"
  note inst = callback_failure_is_isolated
    [of reconnected halted_db example_env "(''broken.sql'', ''SELEC 1'')" example_runner
       False "fst ?m" "snd ?m" "''broken.sql''"]
  have open_conn: "conn reconnected = Some halted_db" "server reconnected = Some halted_db"
    "trace reconnected = []"
    by (simp_all add: reconnected_def)
  have files: "callback_files example_runner
               = [(''broken.sql'', ''SELEC 1''),
                  (''grants.sql'', ''GRANT SELECT ON a TO ${READER}'')]"
    by (simp add: callback_files_def example_runner_def endswith_def)
  have readable: "\<forall>c \<in> set (callback_files example_runner). decode example_env (snd c) \<noteq> None"
    unfolding files by (simp add: example_env_def example_decode_def)
  have broken: "decode example_env (snd (''broken.sql'', ''SELEC 1'')) \<noteq> None"
    "callback_sql example_env example_runner (''broken.sql'', ''SELEC 1'') = ''SELEC 1''"
    "run_sql example_env ''SELEC 1'' (content halted_db) = None"
    by (simp_all add: callback_sql_def example_env_def example_decode_def example_run_def
        example_runner_def render_sql_template_def replace_var_def)
  have content: "callback_content example_env example_runner (callback_files example_runner)
                   (content halted_db)
                 = [''CREATE TABLE a (x int)'', ''GRANT SELECT ON a TO reporting'']"
    unfolding files
    by (simp add: callback_sql_def example_env_def example_decode_def example_run_def
        example_runner_def halted_db_def render_sql_template_def replace_var_def
        placeholder_def ident_start_def ident_char_def)
  have failed: "ScriptFailed ''broken.sql'' \<in> set (new_events reconnected (snd ?m))"
    by (simp add: runner_defs example_md5_def example_decode_def example_run_def
        example_partial_def example_env_def example_runner_def reconnected_def halted_db_def
        row_a_def row_b_def)
  from inst open_conn broken
  have 1: "run_script example_env example_runner False (''broken.sql'', ''SELEC 1'') reconnected
           = (Inr (),
              reconnected\<lparr>trace := [Execute (CallbackScript ''broken.sql'') ''SELEC 1'' False,
                                      Rollback, ScriptFailed ''broken.sql'']\<rparr>)"
    by (simp add: reconnected_def)
  from inst open_conn readable files content
  have 2: "\<exists>w'. run_after_migrate_scripts example_env example_runner False reconnected
                  = (Inr (), w')
         \<and> map fst (callbacks (new_events reconnected w')) = [''broken.sql'', ''grants.sql'']
         \<and> server w'
             = Some (halted_db\<lparr>content := [''CREATE TABLE a (x int)'',
                                            ''GRANT SELECT ON a TO reporting'']\<rparr>)"
    by auto
  from inst failed readable have 3: "fst ?m = Inr 0" by simp
  from 1 2 failed 3 show ?thesis by (intro conjI)
qed

text \<open>
  Claim C8 as it is worded fails when a callback file cannot be read as text: the file
  is read outside the \<open>try\<close> block, so the error leaves \<open>run_after_migrate_scripts\<close> and
  \<open>migrate\<close>. Here \<open>broken.sql\<close> fails and is rolled back, the next script \<open>views.sql\<close> is
  not executed, and \<open>migrate\<close> does not return.
\<close>

theorem unreadable_callback_counterexample:
  "migrate example_env utf16_callback_runner False after_first_run
   = (Inl UnicodeDecodeError,
      \<lparr>server = Some \<lparr>ledger = Some [row_a, row_b False, row_c],
                      content = [''CREATE TABLE a (x int)'', ''CREATE TABLE c (x int)'']\<rparr>,
       conn = Some \<lparr>ledger = Some [row_a, row_b False, row_c],
                    content = [''CREATE TABLE a (x int)'', ''CREATE TABLE c (x int)'']\<rparr>,
       trace = first_run_trace
               @ [Connect, CreateTable, Commit, Select True,
                  Execute (MigrationScript ''v3_c.sql'') ''CREATE TABLE c (x int)'' True,
                  Commit, Insert row_c True, Commit,
                  Execute (CallbackScript ''broken.sql'') ''SELEC 1'' False, Rollback,
                  ScriptFailed ''broken.sql'']\<rparr>)"
  by (simp add: runner_defs example_md5_def example_decode_def example_run_def
      example_partial_def example_env_def example_runner_def utf16_callback_runner_def
      after_first_run_def first_run_trace_def halted_db_def row_a_def row_b_def row_c_def)

text \<open>
  Claim C9, as amended. Every run of \<open>migrate\<close> that returns (with 0 or with 1) has
  closed the connection, as the last thing it did.
\<close>

theorem migrate_returns_with_connection_closed:
  assumes "migrate e r dry_run w = (Inr code, w')"
  shows "conn w' = None \<and> last (new_events w w') = Close \<and> (code = 0 \<or> code = 1)"
  using assms by (cases rule: migrate_cases) simp_all

theorem migrate_returns_with_connection_closed_witness:
  "migrate example_env example_runner False no_database = (Inr 1, after_first_run)
   \<and> conn after_first_run = None
   \<and> last (new_events no_database after_first_run) = Close"
  using migrate_returns_with_connection_closed [OF example_first_run] example_first_run
  by simp

text \<open>
  Claim C9 as it is worded fails when an exception leaves \<open>migrate\<close>: nothing catches
  it there, and the connection stays open (here a dry run on a database that has no
  ledger table yet).
\<close>

theorem exception_leaves_connection_open_counterexample:
  "migrate example_env example_runner True fresh_database
   = (Inl Psycopg2Error,
      \<lparr>server = Some \<lparr>ledger = None, content = []\<rparr>,
       conn = Some \<lparr>ledger = None, content = []\<rparr>,
       trace = [Connect, Select False]\<rparr>)"
  by (simp add: runner_defs example_md5_def example_decode_def example_run_def example_partial_def example_env_def example_runner_def fresh_database_def)

text \<open>
  Claim C10. A migration that \<open>apply_migration\<close> reports as applied has had its script
  executed and committed, and after that commit its ledger row inserted and committed:
  two transactions, the script's first. The committed database then holds the effect of
  the script and the row.
\<close>

theorem ledger_row_after_script_commit:
  assumes "apply_migration e r m False w = (Inr True, w')"
  shows "new_events w w'
           = [Execute (MigrationScript (filename m)) (script_sql e r m) True, Commit,
              Insert (migration_row r m True) True, Commit]
         \<and> (\<exists>d c rows.
               conn w = Some d \<and> run_sql e (script_sql e r m) (content d) = Some c
               \<and> ledger d = Some rows
               \<and> server w'
                   = Some \<lparr>ledger = Some (rows @ [stored (migration_row r m True)]),
                           content = c\<rparr>)"
proof -
  from assms obtain body where
    b: "read_text e (map_of (migrations_dir r) (filepath m)) = Inr body"
    by (auto simp: apply_migration_def split: sum.splits)
  then have t: "script_text e r m = Some body"
    by (auto simp: read_text_def script_text_def split: option.splits)
  from assms obtain d where c: "conn w = Some d"
    by (auto simp: apply_migration_def Let_def b split: if_splits)
  have sql: "script_sql e r m = render_sql_template (template_vars r) body"
    by (simp add: script_sql_def t)
  have "trace w' = trace w @ [Execute (MigrationScript (filename m)) (script_sql e r m) True,
                              Commit, Insert (migration_row r m True) True, Commit]
        \<and> (\<exists>c rows. run_sql e (script_sql e r m) (content d) = Some c \<and> ledger d = Some rows
              \<and> server w'
                  = Some \<lparr>ledger = Some (rows @ [stored (migration_row r m True)]),
                          content = c\<rparr>)"
    using assms b c unfolding sql
    by (auto simp: apply_migration_def Let_def bind_result_def execute_script_def commit_def
        insert_row_def rollback_def log_def
        split: option.splits if_splits prod.splits sum.splits error.splits)
  with c show ?thesis by simp
qed

theorem ledger_row_after_script_commit_witness:
  "fst (apply_migration example_env example_runner migration_c False reconnected) = Inr True
   \<and> new_events reconnected
        (snd (apply_migration example_env example_runner migration_c False reconnected))
     = [Execute (MigrationScript ''v3_c.sql'') ''CREATE TABLE c (x int)'' True, Commit,
        Insert row_c True, Commit]"
proof -
  obtain w' where
    run: "apply_migration example_env example_runner migration_c False reconnected
          = (Inr True, w')"
    by (simp add: runner_defs example_md5_def example_decode_def example_run_def example_partial_def example_env_def example_runner_def
        migration_c_def reconnected_def halted_db_def row_a_def row_b_def row_c_def)
  have sql: "script_sql example_env example_runner migration_c = ''CREATE TABLE c (x int)''"
    by (simp add: script_sql_def script_text_def example_env_def example_decode_def
        example_runner_def migration_c_def render_sql_template_def replace_var_def)
  have row: "migration_row example_runner migration_c True = row_c"
    by (simp add: migration_row_def example_runner_def migration_c_def row_c_def)
  from ledger_row_after_script_commit [OF run] run sql row show ?thesis
    by (simp add: migration_c_def)
qed

end
